theory Spec2Isabelle
  imports Complex_Main "HOL-Library.Word"
begin

unbundle bit_operations_syntax

section \<open>Values, errors and sequencing\<close>

text \<open>
  A JavaScript \<open>number\<close> is modelled as a rational: every integer and every fraction the
  code can be handed is a value of the model; NaN and the infinities are not. The largest
  length of an array, \<open>2^32 - 1\<close>, is that of the language and is modelled; the largest
  length of a \<open>Buffer\<close> and the memory at hand depend on the host and are not. A byte
  of a \<open>Buffer\<close> is an 8-bit word and the register of the checksum a 32-bit word; the
  bitwise operators on colour values work on integers wrapped into 32 bits. The arithmetic
  of the luminance formula is that of binary64 numbers, each held as the rational it
  denotes.
\<close>

type_synonym number = rat
type_synonym byte = "8 word"
type_synonym Buffer = "byte list"

text \<open>The three exception classes the code throws.\<close>

datatype error = TypeError | RangeError | ReferenceError

text \<open>
  An argument whose dynamic type the code inspects (\<open>typeof v\<close>) before using it: a
  number, a string, or a value that is neither (the tests pass \<open>false\<close>).
\<close>

datatype jsval = JNum number | JStr string | JBool bool

text \<open>
  One cell of a pixel map: \<open>null\<close> (what the canvas class fills a cell with that is not
  set), \<open>undefined\<close> (the cell that is not set of the type \<open>PixelMap\<close> and of the
  README; also a hole of an array, and what a read beyond the end of an array yields) or a
  number.
\<close>

datatype cell = Null | Undefined | Num number

text \<open>A statement that may throw, followed by the rest of the block.\<close>

definition andThen :: "error + 'a \<Rightarrow> ('a \<Rightarrow> error + 'b) \<Rightarrow> error + 'b" where
  "andThen r f = (case r of Inl e \<Rightarrow> Inl e | Inr x \<Rightarrow> f x)"

section \<open>validation.ts\<close>

definition throwIfNotNumber :: "jsval \<Rightarrow> error + number" where
  "throwIfNotNumber v = (case v of JNum n \<Rightarrow> Inr n | _ \<Rightarrow> Inl TypeError)"

definition throwIfNegative :: "number \<Rightarrow> error + unit" where
  "throwIfNegative v = (if v < 0 then Inl RangeError else Inr ())"

definition throwIfNotInKeys :: "string \<Rightarrow> (string \<times> 'a) list \<Rightarrow> error + unit" where
  "throwIfNotInKeys v obj = (if map_of obj v = None then Inl ReferenceError else Inr ())"

definition throwIfOutOfRange :: "number \<Rightarrow> number \<Rightarrow> number \<Rightarrow> error + unit" where
  "throwIfOutOfRange v mn mx = (if v < mn \<or> v > mx then Inl RangeError else Inr ())"

text \<open>
  Modelled from the spec: \<open>throwIfNotInteger\<close> is imported by pixelCanvas.ts from
  validation.ts, but the validation.ts among the sources does not declare it. The spec
  (\<open>setScale\<close> "fails unless factor is an integer", error class TypeError for a wrong
  value kind) and the helper's own tests (3.14 throws a TypeError, 42 does not) fix it.
\<close>

definition throwIfNotInteger :: "number \<Rightarrow> error + unit" where
  "throwIfNotInteger v = (if of_int \<lfloor>v\<rfloor> = v then Inr () else Inl TypeError)"

section \<open>png.types.ts\<close>

definition GRAYSCALE :: int where "GRAYSCALE = 0"
definition TRUE_COLOR :: int where "TRUE_COLOR = 2"
definition INDEXED_COLOR :: int where "INDEXED_COLOR = 3"
definition GRAYSCALE_ALPHA :: int where "GRAYSCALE_ALPHA = 4"
definition TRUE_COLOR_ALPHA :: int where "TRUE_COLOR_ALPHA = 6"

definition VALID_COLOR_VALUE_RANGE_min :: number where "VALID_COLOR_VALUE_RANGE_min = 0"
definition VALID_COLOR_VALUE_RANGE_max :: number where "VALID_COLOR_VALUE_RANGE_max = 0xffffff"

text \<open>The table of named colours.\<close>

definition COLORS :: "(string \<times> number) list" where
  "COLORS = [
    (''aliceblue'', 0xf0f8ff), (''antiquewhite'', 0xfaebd7), (''aqua'', 0x00ffff),
    (''aquamarine'', 0x7fffd4), (''azure'', 0xf0ffff), (''beige'', 0xf5f5dc),
    (''bisque'', 0xffe4c4), (''black'', 0x000000), (''blanchedalmond'', 0xffebcd),
    (''blue'', 0x0000ff), (''blueviolet'', 0x8a2be2), (''brown'', 0xa52a2a),
    (''burlywood'', 0xdeb887), (''cadetblue'', 0x5f9ea0), (''chartreuse'', 0x7fff00),
    (''chocolate'', 0xd2691e), (''coral'', 0xff7f50), (''cornflowerblue'', 0x6495ed),
    (''cornsilk'', 0xfff8dc), (''crimson'', 0xdc143c), (''cyan'', 0x00ffff),
    (''darkblue'', 0x00008b), (''darkcyan'', 0x008b8b), (''darkgoldenrod'', 0xb8860b),
    (''darkgray'', 0xa9a9a9), (''darkgreen'', 0x006400), (''darkgrey'', 0xa9a9a9),
    (''darkkhaki'', 0xbdb76b), (''darkmagenta'', 0x8b008b), (''darkolivegreen'', 0x556b2f),
    (''darkorange'', 0xff8c00), (''darkorchid'', 0x9932cc), (''darkred'', 0x8b0000),
    (''darksalmon'', 0xe9967a), (''darkseagreen'', 0x8fbc8f), (''darkslateblue'', 0x483d8b),
    (''darkslategray'', 0x2f4f4f), (''darkslategrey'', 0x2f4f4f),
    (''darkturquoise'', 0x00ced1), (''darkviolet'', 0x9400d3), (''deeppink'', 0xff1493),
    (''deepskyblue'', 0x00bfff), (''dimgray'', 0x696969), (''dimgrey'', 0x696969),
    (''dodgerblue'', 0x1e90ff), (''firebrick'', 0xb22222), (''floralwhite'', 0xfffaf0),
    (''forestgreen'', 0x228b22), (''fuchsia'', 0xff00ff), (''gainsboro'', 0xdcdcdc),
    (''ghostwhite'', 0xf8f8ff), (''gold'', 0xffd700), (''goldenrod'', 0xdaa520),
    (''gray'', 0x808080), (''green'', 0x008000), (''greenyellow'', 0xadff2f),
    (''grey'', 0x808080), (''honeydew'', 0xf0fff0), (''hotpink'', 0xff69b4),
    (''indianred'', 0xcd5c5c), (''indigo'', 0x4b0082), (''ivory'', 0xfffff0),
    (''khaki'', 0xf0e68c), (''lavender'', 0xe6e6fa), (''lavenderblush'', 0xfff0f5),
    (''lawngreen'', 0x7cfc00), (''lemonchiffon'', 0xfffacd), (''lightblue'', 0xadd8e6),
    (''lightcoral'', 0xf08080), (''lightcyan'', 0xe0ffff),
    (''lightgoldenrodyellow'', 0xfafad2), (''lightgray'', 0xd3d3d3),
    (''lightgreen'', 0x90ee90), (''lightgrey'', 0xd3d3d3), (''lightpink'', 0xffb6c1),
    (''lightsalmon'', 0xffa07a), (''lightseagreen'', 0x20b2aa), (''lightskyblue'', 0x87cefa),
    (''lightslategray'', 0x778899), (''lightslategrey'', 0x778899),
    (''lightsteelblue'', 0xb0c4de), (''lightyellow'', 0xffffe0), (''lime'', 0x00ff00),
    (''limegreen'', 0x32cd32), (''linen'', 0xfaf0e6), (''magenta'', 0xff00ff),
    (''maroon'', 0x800000), (''mediumaquamarine'', 0x66cdaa), (''mediumblue'', 0x0000cd),
    (''mediumorchid'', 0xba55d3), (''mediumpurple'', 0x9370db), (''mediumseagreen'', 0x3cb371),
    (''mediumslateblue'', 0x7b68ee), (''mediumspringgreen'', 0x00fa9a),
    (''mediumturquoise'', 0x48d1cc), (''mediumvioletred'', 0xc71585),
    (''midnightblue'', 0x191970), (''mintcream'', 0xf5fffa), (''mistyrose'', 0xffe4e1),
    (''moccasin'', 0xffe4b5), (''navajowhite'', 0xffdead), (''navy'', 0x000080),
    (''oldlace'', 0xfdf5e6), (''olive'', 0x808000), (''olivedrab'', 0x6b8e23),
    (''orange'', 0xffa500), (''orangered'', 0xff4500), (''orchid'', 0xda70d6),
    (''palegoldenrod'', 0xeee8aa), (''palegreen'', 0x98fb98), (''paleturquoise'', 0xafeeee),
    (''palevioletred'', 0xdb7093), (''papayawhip'', 0xffefd5), (''peachpuff'', 0xffdab9),
    (''peru'', 0xcd853f), (''pink'', 0xffc0cb), (''plum'', 0xdda0dd),
    (''powderblue'', 0xb0e0e6), (''purple'', 0x800080), (''rebeccapurple'', 0x663399),
    (''red'', 0xff0000), (''rosybrown'', 0xbc8f8f), (''royalblue'', 0x4169e1),
    (''saddlebrown'', 0x8b4513), (''salmon'', 0xfa8072), (''sandybrown'', 0xf4a460),
    (''seagreen'', 0x2e8b57), (''seashell'', 0xfff5ee), (''sienna'', 0xa0522d),
    (''silver'', 0xc0c0c0), (''skyblue'', 0x87ceeb), (''slateblue'', 0x6a5acd),
    (''slategray'', 0x708090), (''slategrey'', 0x708090), (''snow'', 0xfffafa),
    (''springgreen'', 0x00ff7f), (''steelblue'', 0x4682b4), (''tan'', 0xd2b48c),
    (''teal'', 0x008080), (''thistle'', 0xd8bfd8), (''tomato'', 0xff6347),
    (''turquoise'', 0x40e0d0), (''violet'', 0xee82ee), (''wheat'', 0xf5deb3),
    (''white'', 0xffffff), (''whitesmoke'', 0xf5f5f5), (''yellow'', 0xffff00),
    (''yellowgreen'', 0x9acd32)]"

section \<open>Arithmetic of the host\<close>

text \<open>
  \<open>ToInt32\<close>, applied by \<open>>>\<close> and \<open>&\<close> to their operands: a number is truncated
  towards zero and wrapped into the signed 32-bit range; \<open>null\<close> and \<open>undefined\<close>
  become 0.
\<close>

definition toInt32 :: "cell \<Rightarrow> int" where
  "toInt32 v = (case v of
      Num n \<Rightarrow> (let t = (if 0 \<le> n then \<lfloor>n\<rfloor> else \<lceil>n\<rceil>); m = t mod 2 ^ 32
                in if 2 ^ 31 \<le> m then m - 2 ^ 32 else m)
    | _ \<Rightarrow> 0)"

text \<open>
  IEEE 754 binary64 arithmetic, as far as the luminance formula needs it: \<open>fl q\<close> is the
  double nearest to a non-negative real \<open>q\<close> of the normal range (53 significant bits,
  ties to the even significand), and a product or sum of doubles is \<open>fl\<close> of the exact
  product or sum.
\<close>

fun bitLength :: "nat \<Rightarrow> nat" where
  "bitLength n = (if n = 0 then 0 else Suc (bitLength (n div 2)))"

declare bitLength.simps [simp del]

definition ilog2 :: "rat \<Rightarrow> int" where
  "ilog2 q = (if 1 \<le> q then int (bitLength (nat \<lfloor>q\<rfloor>)) - 1
              else - int (bitLength (nat (\<lceil>1 / q\<rceil> - 1))))"

definition pow2 :: "int \<Rightarrow> rat" where
  "pow2 e = (if 0 \<le> e then 2 ^ nat e else 1 / 2 ^ nat (- e))"

definition roundHalfEven :: "rat \<Rightarrow> int" where
  "roundHalfEven m = (let f = \<lfloor>m\<rfloor>; d = m - of_int f in
     if d < 1 / 2 then f else if 1 / 2 < d then f + 1 else if even f then f else f + 1)"

definition fl :: "rat \<Rightarrow> rat" where
  "fl q = (if q \<le> 0 then 0
           else let e = ilog2 q - 52 in of_int (roundHalfEven (q / pow2 e)) * pow2 e)"

text \<open>\<open>Math.round\<close>: the nearest integer, a tie going up.\<close>

definition mathRound :: "rat \<Rightarrow> int" where
  "mathRound x = \<lfloor>x + 1 / 2\<rfloor>"

section \<open>png.helper.ts\<close>

text \<open>
  A comparison of \<open>null\<close> or \<open>undefined\<close> with a number is false in both checks
  (\<open>null\<close> counts as 0, \<open>undefined\<close> as NaN), so neither throws.
\<close>

definition throwIfInvalidColorValue :: "cell \<Rightarrow> error + unit" where
  "throwIfInvalidColorValue colorValue = (case colorValue of
      Num n \<Rightarrow> andThen (throwIfNegative n)
                 (\<lambda>_. throwIfOutOfRange n VALID_COLOR_VALUE_RANGE_min VALID_COLOR_VALUE_RANGE_max)
    | _ \<Rightarrow> Inr ())"

definition createTrueColorPixelBuffer :: "cell \<Rightarrow> error + Buffer" where
  "createTrueColorPixelBuffer colorValue =
     andThen (throwIfInvalidColorValue colorValue) (\<lambda>_.
       Inr [word_of_int (drop_bit 16 (toInt32 colorValue) AND 0xff),
            word_of_int (drop_bit 8 (toInt32 colorValue) AND 0xff),
            word_of_int (toInt32 colorValue AND 0xff)])"

definition convertTrueColorToGrayscale :: "cell \<Rightarrow> int" where
  "convertTrueColorToGrayscale colorValue =
     (let red = drop_bit 16 (toInt32 colorValue) AND 0xff;
          green = drop_bit 8 (toInt32 colorValue) AND 0xff;
          blue = toInt32 colorValue AND 0xff
      in mathRound (fl (fl (fl (fl (299 / 1000) * of_int red)
                            + fl (fl (587 / 1000) * of_int green))
                        + fl (fl (114 / 1000) * of_int blue))))"

definition createGrayscalePixelBuffer :: "cell \<Rightarrow> error + Buffer" where
  "createGrayscalePixelBuffer colorValue =
     andThen (throwIfInvalidColorValue colorValue) (\<lambda>_.
       Inr [word_of_int (convertTrueColorToGrayscale colorValue)])"

definition createAlphaPixelBuffer :: "cell \<Rightarrow> error + Buffer" where
  "createAlphaPixelBuffer colorValue =
     andThen (throwIfInvalidColorValue colorValue) (\<lambda>_.
       Inr [if colorValue \<noteq> Num 0 then 0xff else 0])"

text \<open>\<open>Buffer.concat\<close> of two buffers, either of which may have thrown while it was built.\<close>

definition concat2 :: "error + Buffer \<Rightarrow> error + Buffer \<Rightarrow> error + Buffer" where
  "concat2 a b = andThen a (\<lambda>x. andThen b (\<lambda>y. Inr (x @ y)))"

definition createPixelBuffer :: "cell \<Rightarrow> int \<Rightarrow> error + Buffer" where
  "createPixelBuffer colorValue colorType =
     (if colorType = GRAYSCALE then createGrayscalePixelBuffer colorValue
      else if colorType = GRAYSCALE_ALPHA then
        concat2 (createGrayscalePixelBuffer colorValue) (createAlphaPixelBuffer colorValue)
      else if colorType = TRUE_COLOR then createTrueColorPixelBuffer colorValue
      else if colorType = TRUE_COLOR_ALPHA then
        concat2 (createTrueColorPixelBuffer colorValue) (createAlphaPixelBuffer colorValue)
      else Inl TypeError)"

section \<open>Loops\<close>

text \<open>
  The values the counter of \<open>for (let i = 0; i < n; i++)\<close> takes: 0, 1, ... while
  below \<open>n\<close>.
\<close>

definition countTo :: "number \<Rightarrow> nat list" where
  "countTo n = [0..<nat \<lceil>n\<rceil>]"

text \<open>
  A loop whose body may throw. \<open>forEach\<close> threads a local value through the
  iterations: when an iteration throws, the value is lost with the block. \<open>forEachMut\<close>
  threads an object that is mutated in place: when an iteration throws, the writes made
  until then stay.
\<close>

fun forEach :: "'a list \<Rightarrow> ('a \<Rightarrow> 's \<Rightarrow> error + 's) \<Rightarrow> 's \<Rightarrow> error + 's" where
  "forEach [] body s = Inr s"
| "forEach (x # xs) body s = andThen (body x s) (forEach xs body)"

fun forEachMut :: "'a list \<Rightarrow> ('a \<Rightarrow> 's \<Rightarrow> (error + unit) \<times> 's) \<Rightarrow> 's \<Rightarrow> (error + unit) \<times> 's" where
  "forEachMut [] body s = (Inr (), s)"
| "forEachMut (x # xs) body s =
     (case body x s of (Inl e, s') \<Rightarrow> (Inl e, s') | (Inr _, s') \<Rightarrow> forEachMut xs body s')"

section \<open>Arrays of the host\<close>

text \<open>
  \<open>new Array(n).fill(v)\<close>: a RangeError (invalid array length) unless \<open>n\<close> is an
  integer from 0 to \<open>2^32 - 1\<close>.
\<close>

definition newArray :: "number \<Rightarrow> 'a \<Rightarrow> error + 'a list" where
  "newArray n v =
     (if 0 \<le> n \<and> n \<le> 0xffffffff \<and> of_int \<lfloor>n\<rfloor> = n then Inr (replicate (nat \<lfloor>n\<rfloor>) v)
      else Inl RangeError)"

text \<open>
  The array index a number names, if it is one (an integer from 0 to \<open>2^32 - 2\<close>); any
  other number used as a key names a plain property of the array object.
\<close>

definition arrayIndex :: "number \<Rightarrow> nat option" where
  "arrayIndex n =
     (if 0 \<le> n \<and> n \<le> 0xfffffffe \<and> of_int \<lfloor>n\<rfloor> = n then Some (nat \<lfloor>n\<rfloor>) else None)"

text \<open>
  \<open>pixelMap[x]![y]!\<close>: reading a property of \<open>undefined\<close> (no column \<open>x\<close>) is a
  TypeError; a row beyond the end of the column reads as \<open>undefined\<close>.
\<close>

definition cellAt :: "cell list list \<Rightarrow> nat \<Rightarrow> nat \<Rightarrow> error + cell" where
  "cellAt pm x y =
     (if x < length pm then Inr (if y < length (pm ! x) then pm ! x ! y else Undefined)
      else Inl TypeError)"

text \<open>\<open>column[j] = v\<close>: a write beyond the end extends the array, leaving holes.\<close>

definition arraySet :: "cell list \<Rightarrow> nat \<Rightarrow> cell \<Rightarrow> cell list" where
  "arraySet column j v =
     (if j < length column then column[j := v]
      else column @ replicate (j - length column) Undefined @ [v])"

text \<open>
  \<open>pixelMap[x]![y] = v\<close>: where \<open>x\<close> names no column of the map (it is beyond the
  end, or not an array index at all) \<open>pixelMap[x]\<close> is \<open>undefined\<close> and the write
  is a TypeError; where \<open>y\<close> is not an array index the write adds a property to the
  column and changes none of its cells. The map is held by value: its columns are taken
  to be arrays of their own, as those of a map the canvas allocates are, so that a write
  into one column is not seen through another.
\<close>

definition setCell :: "cell list list \<Rightarrow> number \<Rightarrow> number \<Rightarrow> cell \<Rightarrow> error + cell list list" where
  "setCell pm x y v =
     (case arrayIndex x of
        None \<Rightarrow> Inl TypeError
      | Some i \<Rightarrow>
          if length pm \<le> i then Inl TypeError
          else (case arrayIndex y of
                  None \<Rightarrow> Inr pm
                | Some j \<Rightarrow> Inr (pm[i := arraySet (pm ! i) j v])))"

section \<open>pixelCanvas.ts\<close>

record PixelCanvasOptions =
  opt_width :: jsval
  opt_height :: jsval
  opt_backgroundColor :: jsval
  opt_pixelMap :: "cell list list option"

record PixelCanvas =
  width :: number
  height :: number
  pixelMap :: "cell list list"
  lastUsedColor :: number
  backgroundColor :: number

definition initPixelMap :: "number \<Rightarrow> number \<Rightarrow> error + cell list list" where
  "initPixelMap w h =
     andThen (newArray w Null) (\<lambda>columns.
       forEach columns (\<lambda>_ acc. andThen (newArray h Null) (\<lambda>column. Inr (acc @ [column]))) [])"

definition validateColor :: "jsval \<Rightarrow> error + number" where
  "validateColor color = (case color of
      JStr name \<Rightarrow>
        andThen (throwIfNotInKeys name COLORS) (\<lambda>_.
          case map_of COLORS name of Some v \<Rightarrow> Inr v | None \<Rightarrow> Inl ReferenceError)
    | _ \<Rightarrow>
        andThen (throwIfNotNumber color) (\<lambda>n.
          andThen (throwIfOutOfRange n VALID_COLOR_VALUE_RANGE_min VALID_COLOR_VALUE_RANGE_max)
            (\<lambda>_. Inr n)))"

definition validateInitialPixelMap :: "cell list list \<Rightarrow> number \<Rightarrow> number \<Rightarrow> error + unit" where
  "validateInitialPixelMap pm w h =
     (if of_nat (length pm) \<noteq> w then Inl RangeError
      else forEach pm (\<lambda>column _. if of_nat (length column) \<noteq> h then Inl RangeError else Inr ()) ())"

text \<open>
  The constructor. Without options the field initialisers stand: 16 by 16, every cell
  \<open>null\<close>, both colours 0. A constructor that throws yields no object.
\<close>

definition defaultCanvas :: PixelCanvas where
  "defaultCanvas =
     \<lparr>width = 16, height = 16,
      pixelMap = (case initPixelMap 16 16 of Inr pm \<Rightarrow> pm | Inl _ \<Rightarrow> []),
      lastUsedColor = 0, backgroundColor = 0\<rparr>"

definition newPixelCanvas :: "PixelCanvasOptions option \<Rightarrow> error + PixelCanvas" where
  "newPixelCanvas options = (case options of
      None \<Rightarrow> Inr defaultCanvas
    | Some opts \<Rightarrow>
        andThen (throwIfNotNumber (opt_width opts)) (\<lambda>w.
        andThen (throwIfNegative w) (\<lambda>_.
        andThen (throwIfNotNumber (opt_height opts)) (\<lambda>h.
        andThen (throwIfNegative h) (\<lambda>_.
        andThen (case opt_pixelMap opts of
                   Some pm \<Rightarrow> andThen (validateInitialPixelMap pm w h) (\<lambda>_. Inr pm)
                 | None \<Rightarrow> initPixelMap w h) (\<lambda>pm.
        andThen (validateColor (opt_backgroundColor opts)) (\<lambda>bg.
          Inr (defaultCanvas\<lparr>width := w, height := h, pixelMap := pm,
                 backgroundColor := bg\<rparr>))))))))"

text \<open>
  A method of the canvas returns whether it threw together with the canvas as the call
  left it: the object is mutated in place, so what was written before an exception stays
  written.
\<close>

definition currentColorOf :: "jsval option \<Rightarrow> PixelCanvas \<Rightarrow> error + number" where
  "currentColorOf color c =
     (case color of Some v \<Rightarrow> validateColor v | None \<Rightarrow> Inr (lastUsedColor c))"

definition setPixel :: "number \<Rightarrow> number \<Rightarrow> jsval option \<Rightarrow> PixelCanvas \<Rightarrow> (error + unit) \<times> PixelCanvas" where
  "setPixel x y color c =
     (case andThen (throwIfOutOfRange x 0 (width c - 1)) (\<lambda>_.
           andThen (throwIfOutOfRange y 0 (height c - 1)) (\<lambda>_.
           andThen (currentColorOf color c) (\<lambda>currentColor.
           andThen (setCell (pixelMap c) x y (Num currentColor)) (\<lambda>pm.
             Inr (c\<lparr>pixelMap := pm, lastUsedColor := currentColor\<rparr>))))) of
        Inl e \<Rightarrow> (Inl e, c)
      | Inr c' \<Rightarrow> (Inr (), c'))"

definition writeCell :: "number \<Rightarrow> number \<Rightarrow> cell \<Rightarrow> cell list list \<Rightarrow> (error + unit) \<times> cell list list" where
  "writeCell x y v pm = (case setCell pm x y v of Inl e \<Rightarrow> (Inl e, pm) | Inr pm' \<Rightarrow> (Inr (), pm'))"

definition setPixels :: "number list \<Rightarrow> number list \<Rightarrow> jsval option \<Rightarrow> PixelCanvas \<Rightarrow> (error + unit) \<times> PixelCanvas" where
  "setPixels xValues yValues color c =
     (case andThen (forEach xValues (\<lambda>x _. throwIfOutOfRange x 0 (width c - 1)) ()) (\<lambda>_.
           andThen (forEach yValues (\<lambda>y _. throwIfOutOfRange y 0 (height c - 1)) ()) (\<lambda>_.
           currentColorOf color c)) of
        Inl e \<Rightarrow> (Inl e, c)
      | Inr currentColor \<Rightarrow>
          (case forEachMut xValues (\<lambda>x. forEachMut yValues (\<lambda>y. writeCell x y (Num currentColor)))
                  (pixelMap c) of
             (Inl e, pm) \<Rightarrow> (Inl e, c\<lparr>pixelMap := pm\<rparr>)
           | (Inr _, pm) \<Rightarrow> (Inr (), c\<lparr>pixelMap := pm, lastUsedColor := currentColor\<rparr>)))"

definition scaleOnePixel :: "PixelCanvas \<Rightarrow> nat \<Rightarrow> nat \<Rightarrow> number \<Rightarrow> cell list list \<Rightarrow> error + cell list list" where
  "scaleOnePixel c x y scale pm =
     forEach (countTo scale) (\<lambda>i.
       forEach (countTo scale) (\<lambda>j pm'.
         andThen (cellAt (pixelMap c) x y) (\<lambda>v.
           setCell pm' (of_nat x * scale + of_nat i) (of_nat y * scale + of_nat j) v))) pm"

definition setScale :: "jsval \<Rightarrow> PixelCanvas \<Rightarrow> (error + unit) \<times> PixelCanvas" where
  "setScale scale c =
     (case andThen (throwIfNotNumber scale) (\<lambda>s.
           andThen (throwIfNegative s) (\<lambda>_.
           andThen (throwIfOutOfRange s 1 100) (\<lambda>_.
           andThen (throwIfNotInteger s) (\<lambda>_.
           andThen (initPixelMap (width c * s) (height c * s)) (\<lambda>newPixelMap.
           andThen (forEach (countTo (width c)) (\<lambda>x.
                      forEach (countTo (height c)) (\<lambda>y. scaleOnePixel c x y s)) newPixelMap)
             (\<lambda>pm. Inr (c\<lparr>width := width c * s, height := height c * s, pixelMap := pm\<rparr>))))))) of
        Inl e \<Rightarrow> (Inl e, c)
      | Inr c' \<Rightarrow> (Inr (), c'))"

definition getSize :: "PixelCanvas \<Rightarrow> number \<times> number" where
  "getSize c = (width c, height c)"

definition getPixelMap :: "PixelCanvas \<Rightarrow> cell list list" where
  "getPixelMap c = pixelMap c"

definition getBackgroundColor :: "PixelCanvas \<Rightarrow> number" where
  "getBackgroundColor c = backgroundColor c"

section \<open>Buffers of the host\<close>

text \<open>
  \<open>buf.writeUInt32BE(value, offset)\<close> and \<open>buf.writeUInt8(value, offset)\<close> of Node's
  Buffer: a RangeError when the value is outside the unsigned range or the bytes do not
  fit at the offset; otherwise the bytes of the (truncated) value, most significant first.
\<close>

definition writeBytes :: "Buffer \<Rightarrow> nat \<Rightarrow> Buffer \<Rightarrow> Buffer" where
  "writeBytes buf off bs = take off buf @ bs @ drop (off + length bs) buf"

definition writeUInt32BE :: "Buffer \<Rightarrow> number \<Rightarrow> nat \<Rightarrow> error + Buffer" where
  "writeUInt32BE buf v off =
     (if v < 0 \<or> 0xffffffff < v \<or> length buf < off + 4 then Inl RangeError
      else Inr (writeBytes buf off
             [word_of_int (drop_bit 24 \<lfloor>v\<rfloor>), word_of_int (drop_bit 16 \<lfloor>v\<rfloor>),
              word_of_int (drop_bit 8 \<lfloor>v\<rfloor>), word_of_int \<lfloor>v\<rfloor>]))"

definition writeUInt8 :: "Buffer \<Rightarrow> number \<Rightarrow> nat \<Rightarrow> error + Buffer" where
  "writeUInt8 buf v off =
     (if v < 0 \<or> 0xff < v \<or> length buf < off + 1 then Inl RangeError
      else Inr (writeBytes buf off [word_of_int \<lfloor>v\<rfloor>]))"

definition alloc :: "nat \<Rightarrow> Buffer" where
  "alloc n = replicate n 0"

section \<open>pngCreator.ts\<close>

datatype CriticalChunk = IHDR | IDAT | IEND

text \<open>\<open>Buffer.from(chunkType)\<close>: the four ASCII codes of the tag.\<close>

definition typeBuffer :: "CriticalChunk \<Rightarrow> Buffer" where
  "typeBuffer t = (case t of
      IHDR \<Rightarrow> [0x49, 0x48, 0x44, 0x52]
    | IDAT \<Rightarrow> [0x49, 0x44, 0x41, 0x54]
    | IEND \<Rightarrow> [0x49, 0x45, 0x4e, 0x44])"

text \<open>
  The assembler: its CRC table cache (empty until the first checksum) and the compressor
  it was constructed with, of which nothing is assumed.
\<close>

record PNGCreator =
  crc32Table :: "32 word list"
  deflateSync :: "Buffer \<Rightarrow> Buffer"

definition getPNGCreator :: "(Buffer \<Rightarrow> Buffer) \<Rightarrow> PNGCreator" where
  "getPNGCreator zlibModule = \<lparr>crc32Table = [], deflateSync = zlibModule\<rparr>"

definition PNG_SIGNATURE :: Buffer where
  "PNG_SIGNATURE = [0x89, 0x50, 0x4e, 0x47, 0x0d, 0x0a, 0x1a, 0x0a]"

text \<open>The inner loop of the table builder: \<open>k\<close> rounds on \<open>current\<close>.\<close>

fun crcRounds :: "nat \<Rightarrow> 32 word \<Rightarrow> 32 word" where
  "crcRounds 0 current = current"
| "crcRounds (Suc k) current =
     crcRounds k (if current AND 1 \<noteq> 0 then 0xedb88320 XOR drop_bit 1 current
                  else drop_bit 1 current)"

definition buildCrc32Table :: "32 word list" where
  "buildCrc32Table = foldl (\<lambda>table index. table @ [crcRounds 8 (word_of_nat index)]) [] [0..<256]"

definition getCrc32Table :: "PNGCreator \<Rightarrow> 32 word list \<times> PNGCreator" where
  "getCrc32Table s =
     (if length (crc32Table s) = 0 then (buildCrc32Table, s\<lparr>crc32Table := buildCrc32Table\<rparr>)
      else (crc32Table s, s))"

text \<open>\<open>table[index]! ^ (crc >>> 8)\<close>; an entry the table lacks would count as 0.\<close>

definition crcStep :: "32 word list \<Rightarrow> 32 word \<Rightarrow> byte \<Rightarrow> 32 word" where
  "crcStep table crc b =
     (let index = unat ((crc XOR ucast b) AND 0xff)
      in (if index < length table then table ! index else 0) XOR drop_bit 8 crc)"

definition computeCRC32 :: "Buffer \<Rightarrow> PNGCreator \<Rightarrow> 32 word \<times> PNGCreator" where
  "computeCRC32 buffer s =
     (case getCrc32Table s of (table, s') \<Rightarrow> (NOT (foldl (crcStep table) 0xffffffff buffer), s'))"

definition createIHDRBuffer :: "number \<Rightarrow> number \<Rightarrow> int \<Rightarrow> error + Buffer" where
  "createIHDRBuffer w h colorType =
     andThen (writeUInt32BE (alloc 13) w 0) (\<lambda>b1.
     andThen (writeUInt32BE b1 h 4) (\<lambda>b2.
     andThen (writeUInt8 b2 8 8) (\<lambda>b3.
     andThen (writeUInt8 b3 (of_int colorType) 9) (\<lambda>b4.
     andThen (writeUInt8 b4 0 10) (\<lambda>b5.
     andThen (writeUInt8 b5 0 11) (\<lambda>b6.
     writeUInt8 b6 0 12))))))"

definition createChunk :: "CriticalChunk \<Rightarrow> Buffer \<Rightarrow> PNGCreator \<Rightarrow> (error + Buffer) \<times> PNGCreator" where
  "createChunk chunkType chunkData s =
     (case writeUInt32BE (alloc 4) (of_nat (length chunkData)) 0 of
        Inl e \<Rightarrow> (Inl e, s)
      | Inr len \<Rightarrow>
          (case computeCRC32 (typeBuffer chunkType @ chunkData) s of
             (crcValue, s') \<Rightarrow>
               (case writeUInt32BE (alloc 4) (of_nat (unat crcValue)) 0 of
                  Inl e \<Rightarrow> (Inl e, s')
                | Inr crc \<Rightarrow> (Inr (len @ typeBuffer chunkType @ chunkData @ crc), s'))))"

definition addBackgroundColor :: "cell list list \<Rightarrow> number \<Rightarrow> cell list list" where
  "addBackgroundColor pm bg =
     map (\<lambda>row. map (\<lambda>column. if column = Null then Num bg else column) row) pm"

definition computeImageBuffer :: "PixelCanvas \<Rightarrow> int \<Rightarrow> error + Buffer" where
  "computeImageBuffer pixelCanvas colorType =
     (let pm = addBackgroundColor (getPixelMap pixelCanvas) (getBackgroundColor pixelCanvas) in
      andThen (forEach (countTo (snd (getSize pixelCanvas))) (\<lambda>y imageBuffer.
                 forEach (countTo (fst (getSize pixelCanvas))) (\<lambda>x imageBuffer'.
                   andThen (cellAt pm x y) (\<lambda>colorValue.
                   andThen (createPixelBuffer colorValue colorType) (\<lambda>pixel.
                     Inr (imageBuffer' @ [pixel]))))
                   (imageBuffer @ [alloc 1])) [])
        (\<lambda>imageBuffer. Inr (concat imageBuffer)))"

definition finalizeCreation :: "Buffer \<Rightarrow> Buffer \<Rightarrow> PNGCreator \<Rightarrow> (error + Buffer) \<times> PNGCreator" where
  "finalizeCreation ihdrBuffer idatBuffer s =
     (case createChunk IHDR ihdrBuffer s of
        (Inl e, s1) \<Rightarrow> (Inl e, s1)
      | (Inr c1, s1) \<Rightarrow>
          (case createChunk IDAT idatBuffer s1 of
             (Inl e, s2) \<Rightarrow> (Inl e, s2)
           | (Inr c2, s2) \<Rightarrow>
               (case createChunk IEND (alloc 0) s2 of
                  (Inl e, s3) \<Rightarrow> (Inl e, s3)
                | (Inr c3, s3) \<Rightarrow> (Inr (PNG_SIGNATURE @ c1 @ c2 @ c3), s3))))"

definition createFromCanvas :: "PixelCanvas \<Rightarrow> int option \<Rightarrow> PNGCreator \<Rightarrow> (error + Buffer) \<times> PNGCreator" where
  "createFromCanvas pixelCanvas colorMode s =
     (let colorType = (case colorMode of Some m \<Rightarrow> m | None \<Rightarrow> TRUE_COLOR) in
      case computeImageBuffer pixelCanvas colorType of
        Inl e \<Rightarrow> (Inl e, s)
      | Inr imageData \<Rightarrow>
          (case createIHDRBuffer (fst (getSize pixelCanvas)) (snd (getSize pixelCanvas)) colorType of
             Inl e \<Rightarrow> (Inl e, s)
           | Inr ihdrBuffer \<Rightarrow> finalizeCreation ihdrBuffer (deflateSync s imageData) s))"

definition createFromBuffer :: "Buffer \<Rightarrow> number \<Rightarrow> number \<Rightarrow> int \<Rightarrow> PNGCreator \<Rightarrow> (error + Buffer) \<times> PNGCreator" where
  "createFromBuffer pixelBuffer w h colorType s =
     (case createIHDRBuffer w h colorType of
        Inl e \<Rightarrow> (Inl e, s)
      | Inr ihdrBuffer \<Rightarrow> finalizeCreation ihdrBuffer (deflateSync s pixelBuffer) s)"

section \<open>Conditions of the constructor\<close>



section \<open>The reference checksum\<close>

text \<open>
  The CRC-32 of the PNG and zlib standards, bit by bit: the register starts as all ones;
  each byte is exclusive-ored into its low end and the register is divided eight times in
  reflected order (shift right, exclusive-or the polynomial 0xEDB88320 in when the bit
  shifted out was set); the result is the inverted register.
\<close>

definition reflectedDivide :: "32 word \<Rightarrow> 32 word" where
  "reflectedDivide r = (if bit r 0 then drop_bit 1 r XOR 0xEDB88320 else drop_bit 1 r)"

definition crc32Reference :: "Buffer \<Rightarrow> 32 word" where
  "crc32Reference bytes =
     NOT (foldl (\<lambda>r b. (reflectedDivide ^^ 8) (r XOR ucast b)) 0xFFFFFFFF bytes)"

text \<open>The states of the table cache: not built yet, or built.\<close>

definition tableCached :: "PNGCreator \<Rightarrow> bool" where
  "tableCached s = (crc32Table s = [] \<or> crc32Table s = buildCrc32Table)"

section \<open>The output format\<close>

text \<open>
  The layout of section 6 of the specification: a 32-bit value as four bytes, most
  significant first; a chunk as length, tag, payload and checksum of tag and payload; the
  13-byte header; and the file as signature, header chunk, one data chunk and the empty
  terminator chunk. A tag is the four ASCII codes of its letters: 49 48 44 52 for IHDR,
  49 44 41 54 for IDAT and 49 45 4E 44 for IEND.
\<close>

definition bigEndian32 :: "nat \<Rightarrow> Buffer" where
  "bigEndian32 n =
     [of_nat (n div 2 ^ 24 mod 256), of_nat (n div 2 ^ 16 mod 256),
      of_nat (n div 2 ^ 8 mod 256), of_nat (n mod 256)]"

definition chunkLayout :: "Buffer \<Rightarrow> Buffer \<Rightarrow> Buffer" where
  "chunkLayout tag payload =
     bigEndian32 (length payload) @ tag @ payload @
     bigEndian32 (unat (crc32Reference (tag @ payload)))"

definition headerLayout :: "nat \<Rightarrow> nat \<Rightarrow> int \<Rightarrow> Buffer" where
  "headerLayout w h colorType = bigEndian32 w @ bigEndian32 h @ [8, of_int colorType, 0, 0, 0]"

definition pngLayout :: "nat \<Rightarrow> nat \<Rightarrow> int \<Rightarrow> Buffer \<Rightarrow> Buffer" where
  "pngLayout w h colorType compressed =
     [0x89, 0x50, 0x4E, 0x47, 0x0D, 0x0A, 0x1A, 0x0A] @
     chunkLayout [0x49, 0x48, 0x44, 0x52] (headerLayout w h colorType) @
     chunkLayout [0x49, 0x44, 0x41, 0x54] compressed @
     chunkLayout [0x49, 0x45, 0x4E, 0x44] []"

text \<open>What \<open>writeUInt32BE\<close> and \<open>writeUInt8\<close> accept.\<close>

definition inU32 :: "number \<Rightarrow> bool" where
  "inU32 v = (0 \<le> v \<and> v \<le> 0xffffffff)"

definition inU8 :: "int \<Rightarrow> bool" where
  "inU8 v = (0 \<le> v \<and> v \<le> 0xff)"

section \<open>The raw pixel stream\<close>

text \<open>
  The pixel stream of section 4.4 of the specification: a cell is a colour or unset; an
  unset cell, be it \<open>null\<close> or \<open>undefined\<close>, stands for the background colour and a
  colour for itself; each row, from the top, is the filter byte 0 followed by the bytes of
  its pixels from the left; the rows are concatenated. \<open>hasShape\<close> is the invariant
  of the canvas class: the map has as many columns as the width says and each column as
  many cells as the height says. \<open>unsetAsNull\<close> holds of a map all of whose unset
  cells are \<open>null\<close>, as those of a map the canvas class allocates are.
\<close>

definition resolveCell :: "number \<Rightarrow> cell \<Rightarrow> cell" where
  "resolveCell bg v = (case v of Num n \<Rightarrow> Num n | _ \<Rightarrow> Num bg)"

definition unsetAsNull :: "cell list list \<Rightarrow> bool" where
  "unsetAsNull pm = list_all (list_all (\<lambda>v. v \<noteq> Undefined)) pm"

definition encodedPixel :: "cell \<Rightarrow> int \<Rightarrow> Buffer" where
  "encodedPixel v colorType = (case createPixelBuffer v colorType of Inr b \<Rightarrow> b | Inl _ \<Rightarrow> [])"

definition encodable :: "cell \<Rightarrow> int \<Rightarrow> bool" where
  "encodable v colorType = (case createPixelBuffer v colorType of Inr _ \<Rightarrow> True | Inl _ \<Rightarrow> False)"

definition rawPixelStream :: "nat \<Rightarrow> nat \<Rightarrow> cell list list \<Rightarrow> number \<Rightarrow> int \<Rightarrow> Buffer" where
  "rawPixelStream w h pm bg colorType =
     concat (map (\<lambda>y. 0 # concat (map (\<lambda>x. encodedPixel (resolveCell bg (pm ! x ! y)) colorType)
                                    [0..<w])) [0..<h])"

definition hasShape :: "PixelCanvas \<Rightarrow> nat \<Rightarrow> nat \<Rightarrow> bool" where
  "hasShape c w h =
     (width c = of_nat w \<and> height c = of_nat h \<and> length (pixelMap c) = w \<and>
      list_all (\<lambda>column. length column = h) (pixelMap c))"

definition validColor :: "number \<Rightarrow> bool" where
  "validColor n = (0 \<le> n \<and> n \<le> 0xffffff)"

definition validCells :: "PixelCanvas \<Rightarrow> bool" where
  "validCells c =
     (validColor (backgroundColor c) \<and>
      list_all (list_all (\<lambda>v. case v of Num n \<Rightarrow> validColor n | _ \<Rightarrow> True)) (pixelMap c))"

section \<open>Filling several cells: the intended result\<close>

text \<open>
  The map after the colour \<open>v\<close> was written to every cell of the product of the
  x coordinates \<open>xs\<close> and the y coordinates \<open>ys\<close>.
\<close>

definition paintedMap :: "nat \<Rightarrow> nat \<Rightarrow> cell list list \<Rightarrow> int list \<Rightarrow> int list \<Rightarrow> cell \<Rightarrow> cell list list" where
  "paintedMap w h pm xs ys v =
     map (\<lambda>X. map (\<lambda>Y. if int X \<in> set xs \<and> int Y \<in> set ys then v else pm ! X ! Y) [0..<h])
       [0..<w]"

section \<open>The luminance of a colour\<close>

text \<open>
  The three bytes of a colour value, the luminance formula in exact arithmetic (the
  weighted sum rounded to the nearest integer, a tie going up), and the same formula in
  binary64 arithmetic, each product and sum rounded in the order the source writes them.
\<close>

definition redOf :: "number \<Rightarrow> int" where
  "redOf c = \<lfloor>c\<rfloor> div 2 ^ 16 mod 256"

definition greenOf :: "number \<Rightarrow> int" where
  "greenOf c = \<lfloor>c\<rfloor> div 2 ^ 8 mod 256"

definition blueOf :: "number \<Rightarrow> int" where
  "blueOf c = \<lfloor>c\<rfloor> mod 256"

definition luminanceExact :: "int \<Rightarrow> int \<Rightarrow> int \<Rightarrow> int" where
  "luminanceExact r g b =
     mathRound (299 / 1000 * of_int r + 587 / 1000 * of_int g + 114 / 1000 * of_int b)"

definition luminanceDouble :: "int \<Rightarrow> int \<Rightarrow> int \<Rightarrow> int" where
  "luminanceDouble r g b =
     mathRound (fl (fl (fl (fl (299 / 1000) * of_int r) + fl (fl (587 / 1000) * of_int g))
                    + fl (fl (114 / 1000) * of_int b)))"

section \<open>Basic facts\<close>

lemma andThen_Inl [simp]: "andThen (Inl e) f = Inl e"
  by (simp add: andThen_def)

lemma andThen_Inr [simp]: "andThen (Inr x) f = f x"
  by (simp add: andThen_def)

lemma throwIfInvalidColorValue_ok:
  "0 \<le> c \<Longrightarrow> c \<le> 0xffffff \<Longrightarrow> throwIfInvalidColorValue (Num c) = Inr ()"
  by (simp add: throwIfInvalidColorValue_def throwIfNegative_def throwIfOutOfRange_def
      VALID_COLOR_VALUE_RANGE_min_def VALID_COLOR_VALUE_RANGE_max_def)

lemma createAlphaPixelBuffer_ok:
  "0 \<le> c \<Longrightarrow> c \<le> 0xffffff \<Longrightarrow>
   createAlphaPixelBuffer (Num c) = Inr [if c \<noteq> 0 then 0xff else 0]"
  by (simp add: createAlphaPixelBuffer_def throwIfInvalidColorValue_ok)

lemma createTrueColorPixelBuffer_ok:
  "0 \<le> c \<Longrightarrow> c \<le> 0xffffff \<Longrightarrow>
   createTrueColorPixelBuffer (Num c) =
     Inr [word_of_int (drop_bit 16 (toInt32 (Num c)) AND 0xff),
          word_of_int (drop_bit 8 (toInt32 (Num c)) AND 0xff),
          word_of_int (toInt32 (Num c) AND 0xff)]"
  by (simp add: createTrueColorPixelBuffer_def throwIfInvalidColorValue_ok)

lemma createGrayscalePixelBuffer_ok:
  "0 \<le> c \<Longrightarrow> c \<le> 0xffffff \<Longrightarrow>
   createGrayscalePixelBuffer (Num c) = Inr [word_of_int (convertTrueColorToGrayscale (Num c))]"
  by (simp add: createGrayscalePixelBuffer_def throwIfInvalidColorValue_ok)

lemma forEach_append_const:
  "forEach xs (\<lambda>_ acc. Inr (acc @ [v])) acc0 = Inr (acc0 @ replicate (length xs) v)"
  by (induction xs arbitrary: acc0) (simp_all add: replicate_app_Cons_same)

lemma newArray_nat: "n < 2 ^ 32 \<Longrightarrow> newArray (of_nat n) v = Inr (replicate n v)"
  by (simp add: newArray_def)

lemma newArray_zero [simp]: "newArray 0 v = Inr []"
  by (simp add: newArray_def)

lemma initPixelMap_nat:
  assumes "w < 2 ^ 32" and "w = 0 \<or> h < 2 ^ 32"
  shows "initPixelMap (of_nat w) (of_nat h) = Inr (replicate w (replicate h Null))"
proof (cases "w = 0")
  case True
  then show ?thesis by (simp add: initPixelMap_def)
next
  case False
  with assms have "h < 2 ^ 32" by simp
  then show ?thesis
    using assms(1) forEach_append_const [of "replicate w Null" "replicate h Null" "[]"]
    by (simp add: initPixelMap_def newArray_nat)
qed

lemma defaultCanvas_eq:
  "defaultCanvas = \<lparr>width = 16, height = 16, pixelMap = replicate 16 (replicate 16 Null),
      lastUsedColor = 0, backgroundColor = 0\<rparr>"
proof -
  have "initPixelMap (of_nat 16) (of_nat 16) = Inr (replicate 16 (replicate 16 Null))"
    by (rule initPixelMap_nat) simp_all
  then show ?thesis by (simp add: defaultCanvas_def)
qed

lemma throwIfNotNumber_simps [simp]:
  "throwIfNotNumber (JNum n) = Inr n"
  "throwIfNotNumber (JStr s) = Inl TypeError"
  "throwIfNotNumber (JBool b) = Inl TypeError"
  by (simp_all add: throwIfNotNumber_def)

lemma throwIfNotNumber_not: "(\<forall>n. v \<noteq> JNum n) \<Longrightarrow> throwIfNotNumber v = Inl TypeError"
  by (cases v) simp_all


lemma initPixelMap_cases:
  "initPixelMap w h =
     (if 0 \<le> w \<and> w \<le> 0xffffffff \<and> of_int \<lfloor>w\<rfloor> = w \<and>
         (w = 0 \<or> 0 \<le> h \<and> h \<le> 0xffffffff \<and> of_int \<lfloor>h\<rfloor> = h)
      then Inr (replicate (nat \<lfloor>w\<rfloor>) (replicate (nat \<lfloor>h\<rfloor>) Null)) else Inl RangeError)"
proof (cases "0 \<le> w \<and> w \<le> 0xffffffff \<and> of_int \<lfloor>w\<rfloor> = w")
  case False
  then show ?thesis by (auto simp add: initPixelMap_def newArray_def)
next
  case wok: True
  show ?thesis
  proof (cases "0 \<le> h \<and> h \<le> 0xffffffff \<and> of_int \<lfloor>h\<rfloor> = h")
    case True
    then show ?thesis
      using wok forEach_append_const [of "replicate (nat \<lfloor>w\<rfloor>) Null" "replicate (nat \<lfloor>h\<rfloor>) Null" "[]"]
      by (auto simp add: initPixelMap_def newArray_def)
  next
    case False
    have "forEach (replicate n Null) (\<lambda>_ acc. andThen (newArray h Null) (\<lambda>column. Inr (acc @ [column]))) acc0
        = (if n = 0 then Inr acc0 else Inl RangeError)" for n and acc0 :: "cell list list"
      using False by (cases n) (auto simp add: newArray_def)
    then show ?thesis using wok False
      by (auto simp add: initPixelMap_def newArray_def)
  qed
qed

section \<open>The derived alpha byte\<close>

text \<open>
  C5. For every colour value in [0, 0xFFFFFF], encoding in GreyscaleAlpha (4) or
  TruecolorAlpha (6) mode succeeds and yields the greyscale sample, respectively the three
  RGB samples, of the plain mode followed by exactly one byte, which is 0xFF when the
  colour value is not 0 and 0x00 when it is 0; 0x000000 in TruecolorAlpha mode yields
  [0, 0, 0, 0], and a value other than 0 never yields a final byte other than 0xFF.
\<close>

theorem alpha_byte_appended:
  "0 \<le> c \<and> c \<le> 0xffffff \<longrightarrow>
     (\<exists>g. createPixelBuffer (Num c) GRAYSCALE = Inr [g] \<and>
          createPixelBuffer (Num c) GRAYSCALE_ALPHA = Inr [g, if c \<noteq> 0 then 0xff else 0]) \<and>
     (\<exists>r g b. createPixelBuffer (Num c) TRUE_COLOR = Inr [r, g, b] \<and>
          createPixelBuffer (Num c) TRUE_COLOR_ALPHA = Inr [r, g, b, if c \<noteq> 0 then 0xff else 0]) \<and>
     createPixelBuffer (Num 0) TRUE_COLOR_ALPHA = Inr [0, 0, 0, 0]"
proof
  assume range: "0 \<le> c \<and> c \<le> 0xffffff"
  have grey: "\<exists>g. createPixelBuffer (Num c) GRAYSCALE = Inr [g] \<and>
      createPixelBuffer (Num c) GRAYSCALE_ALPHA = Inr [g, if c \<noteq> 0 then 0xff else 0]"
    using range
    by (simp add: createPixelBuffer_def concat2_def createGrayscalePixelBuffer_ok
        createAlphaPixelBuffer_ok GRAYSCALE_def GRAYSCALE_ALPHA_def)
  have rgb: "\<exists>r g b. createPixelBuffer (Num c) TRUE_COLOR = Inr [r, g, b] \<and>
      createPixelBuffer (Num c) TRUE_COLOR_ALPHA = Inr [r, g, b, if c \<noteq> 0 then 0xff else 0]"
    using range
    by (simp add: createPixelBuffer_def concat2_def createTrueColorPixelBuffer_ok
        createAlphaPixelBuffer_ok GRAYSCALE_def GRAYSCALE_ALPHA_def TRUE_COLOR_def
        TRUE_COLOR_ALPHA_def)
  have black: "createPixelBuffer (Num 0) TRUE_COLOR_ALPHA = Inr [0, 0, 0, 0]"
    by (simp add: createPixelBuffer_def concat2_def createTrueColorPixelBuffer_ok
        createAlphaPixelBuffer_ok GRAYSCALE_def GRAYSCALE_ALPHA_def TRUE_COLOR_def
        TRUE_COLOR_ALPHA_def toInt32_def)
  from grey rgb black show
    "(\<exists>g. createPixelBuffer (Num c) GRAYSCALE = Inr [g] \<and>
          createPixelBuffer (Num c) GRAYSCALE_ALPHA = Inr [g, if c \<noteq> 0 then 0xff else 0]) \<and>
     (\<exists>r g b. createPixelBuffer (Num c) TRUE_COLOR = Inr [r, g, b] \<and>
          createPixelBuffer (Num c) TRUE_COLOR_ALPHA = Inr [r, g, b, if c \<noteq> 0 then 0xff else 0]) \<and>
     createPixelBuffer (Num 0) TRUE_COLOR_ALPHA = Inr [0, 0, 0, 0]"
    by blast
qed

theorem alpha_byte_appended_witness:
  "(0::rat) \<le> 0x123456 \<and> (0x123456::rat) \<le> 0xffffff \<and>
   createPixelBuffer (Num 0x123456) TRUE_COLOR_ALPHA = Inr [0x12, 0x34, 0x56, 0xff]"
proof -
  have "\<exists>r g b. createPixelBuffer (Num 0x123456) TRUE_COLOR = Inr [r, g, b] \<and>
      createPixelBuffer (Num 0x123456) TRUE_COLOR_ALPHA = Inr [r, g, b, 0xff]"
    using alpha_byte_appended [of "0x123456"] by simp
  moreover have "createPixelBuffer (Num 0x123456) TRUE_COLOR = Inr [0x12, 0x34, 0x56]"
    by code_simp
  ultimately show ?thesis by auto
qed

section \<open>The default canvas\<close>

text \<open>
  C10. Constructing a PixelCanvas without options succeeds and yields a canvas of width 16
  and height 16, background colour 0, last used colour 0, whose pixel map is 16 columns of
  16 unset cells each.
\<close>

theorem default_canvas:
  "newPixelCanvas None =
     Inr \<lparr>width = 16, height = 16, pixelMap = replicate 16 (replicate 16 Null),
          lastUsedColor = 0, backgroundColor = 0\<rparr>"
  by (simp add: newPixelCanvas_def defaultCanvas_eq)

section \<open>Failures of the constructor\<close>


lemma validateColor_simps:
  "validateColor (JStr name) = (case map_of COLORS name of Some v \<Rightarrow> Inr v | None \<Rightarrow> Inl ReferenceError)"
  "validateColor (JNum n) = (if n < 0 \<or> 0xffffff < n then Inl RangeError else Inr n)"
  "validateColor (JBool b) = Inl TypeError"
  by (auto simp add: validateColor_def throwIfNotInKeys_def throwIfOutOfRange_def
      VALID_COLOR_VALUE_RANGE_min_def VALID_COLOR_VALUE_RANGE_max_def split: option.splits)






section \<open>The checksum\<close>

lemma foldl_snoc_map: "foldl (\<lambda>t i. t @ [f i]) acc xs = acc @ map f xs"
  by (induction xs arbitrary: acc) simp_all

lemma buildCrc32Table_map:
  "buildCrc32Table = map (\<lambda>index. crcRounds 8 (word_of_nat index)) [0..<256]"
  by (simp add: buildCrc32Table_def foldl_snoc_map)

lemma length_buildCrc32Table: "length buildCrc32Table = 256"
  by (simp add: buildCrc32Table_map)

lemma buildCrc32Table_nth:
  "i < 256 \<Longrightarrow> buildCrc32Table ! i = crcRounds 8 (word_of_nat i)"
  by (simp add: buildCrc32Table_map del: upt_Suc)

lemma and_1_neq_0_iff: "(x AND 1 \<noteq> 0) = bit x 0" for x :: "32 word"
  by (simp add: and_one_eq bit_0 mod_2_eq_odd)

lemma crcRounds_Suc: "crcRounds (Suc k) r = crcRounds k (reflectedDivide r)"
  by (simp add: and_1_neq_0_iff reflectedDivide_def xor.commute)

lemma crcRounds_funpow: "crcRounds k r = (reflectedDivide ^^ k) r"
proof (induction k arbitrary: r)
  case 0
  show ?case by simp
next
  case (Suc k)
  show ?case
    unfolding crcRounds_Suc Suc by (simp only: funpow_Suc_right o_apply)
qed

lemma reflectedDivide_xor:
  "reflectedDivide (a XOR b) = reflectedDivide a XOR reflectedDivide b"
  by (simp add: reflectedDivide_def bit_xor_iff xor.assoc xor.commute xor.left_commute)

lemma crcRounds_xor: "crcRounds k (a XOR b) = crcRounds k a XOR crcRounds k b"
proof (induction k arbitrary: a b)
  case 0
  show ?case by simp
next
  case (Suc k)
  show ?case
    unfolding crcRounds_Suc reflectedDivide_xor by (rule Suc)
qed

lemma low_bit_clear: "take_bit (Suc k) h = 0 \<Longrightarrow> bit h 0 \<Longrightarrow> False" for h :: "32 word"
proof -
  assume z: "take_bit (Suc k) h = 0" and b: "bit h 0"
  from z have "bit (take_bit (Suc k) h) 0 = bit (0 :: 32 word) 0" by (simp only:)
  with b show False by (simp add: bit_take_bit_iff)
qed

lemma take_bit_drop_1: "take_bit (Suc k) h = 0 \<Longrightarrow> take_bit k (drop_bit 1 h) = 0" for h :: "32 word"
proof -
  assume z: "take_bit (Suc k) h = 0"
  have "take_bit (Suc k - 1) (drop_bit 1 h) = drop_bit 1 (take_bit (Suc k) h)"
    by (simp only: drop_bit_take_bit)
  with z show ?thesis by simp
qed

lemma crcRounds_shift:
  "take_bit k h = 0 \<Longrightarrow> crcRounds k h = drop_bit k h" for h :: "32 word"
proof (induction k arbitrary: h)
  case 0
  show ?case by simp
next
  case (Suc k)
  have "reflectedDivide h = drop_bit 1 h"
    using low_bit_clear [OF Suc.prems] by (auto simp add: reflectedDivide_def)
  moreover have "crcRounds k (drop_bit 1 h) = drop_bit k (drop_bit 1 h)"
    using take_bit_drop_1 [OF Suc.prems] by (rule Suc.IH)
  ultimately show ?case by (simp add: crcRounds_Suc del: crcRounds.simps)
qed


lemma crcRounds_byte:
  "crcRounds 8 (crc XOR ucast b) =
     crcRounds 8 (word_of_nat (unat ((crc XOR ucast b) AND 0xff))) XOR drop_bit 8 crc"
  for crc :: "32 word" and b :: byte
proof -
  define x where "x = crc XOR ucast b"
  have split: "x = take_bit 8 x XOR push_bit 8 (drop_bit 8 x)"
    by (rule bit_eqI) (auto simp add: bit_simps)
  have unshift: "drop_bit 8 (push_bit 8 (drop_bit 8 x)) = drop_bit 8 x"
    by (rule bit_eqI) (auto simp add: bit_simps dest: bit_imp_le_length)
  have hi: "crcRounds 8 (push_bit 8 (drop_bit 8 x)) = drop_bit 8 x"
    by (subst crcRounds_shift) (simp_all add: take_bit_push_bit unshift)
  have "drop_bit 8 (ucast b :: 32 word) = 0"
    by (rule bit_eqI) (auto simp add: bit_simps dest: bit_imp_le_length)
  then have shifted: "drop_bit 8 x = drop_bit 8 crc"
    by (simp add: x_def)
  have lo: "word_of_nat (unat (x AND 0xff)) = take_bit 8 x"
    by (simp add: take_bit_eq_mask mask_numeral)
  have "crcRounds 8 x = crcRounds 8 (take_bit 8 x) XOR crcRounds 8 (push_bit 8 (drop_bit 8 x))"
    by (subst split) (simp only: crcRounds_xor)
  then have "crcRounds 8 x = crcRounds 8 (take_bit 8 x) XOR drop_bit 8 x"
    unfolding hi .
  then show ?thesis
    unfolding x_def [symmetric] lo shifted .
qed


lemma masked_index_bound: "unat (x AND 0xff) < 256" for x :: "32 word"
proof -
  have "x AND 0xff = take_bit 8 x"
    by (simp add: take_bit_eq_mask mask_numeral)
  then show ?thesis
    by (simp add: unsigned_take_bit_eq take_bit_nat_less_exp [of 8, simplified])
qed

lemma crcStep_reference:
  "crcStep buildCrc32Table crc b = (reflectedDivide ^^ 8) (crc XOR ucast b)"
proof -
  have "crcStep buildCrc32Table crc b =
      crcRounds 8 (word_of_nat (unat ((crc XOR ucast b) AND 0xff))) XOR drop_bit 8 crc"
    using masked_index_bound [of "crc XOR ucast b"]
    by (simp add: crcStep_def Let_def length_buildCrc32Table buildCrc32Table_nth
        del: crcRounds.simps)
  then have "crcStep buildCrc32Table crc b = crcRounds 8 (crc XOR ucast b)"
    by (simp only: crcRounds_byte [symmetric])
  then show ?thesis
    by (simp only: crcRounds_funpow)
qed

lemma getCrc32Table_cached:
  "tableCached s \<Longrightarrow> getCrc32Table s = (buildCrc32Table, s\<lparr>crc32Table := buildCrc32Table\<rparr>)"
  by (auto simp add: tableCached_def getCrc32Table_def length_buildCrc32Table)

lemma computeCRC32_cached:
  "tableCached s \<Longrightarrow>
   computeCRC32 buffer s = (crc32Reference buffer, s\<lparr>crc32Table := buildCrc32Table\<rparr>)"
proof -
  assume "tableCached s"
  moreover have "foldl (crcStep buildCrc32Table) r buffer =
      foldl (\<lambda>r b. (reflectedDivide ^^ 8) (r XOR ucast b)) r buffer" for r
    by (induction buffer arbitrary: r) (simp_all only: foldl.simps crcStep_reference)
  ultimately show ?thesis
    by (simp add: computeCRC32_def getCrc32Table_cached crc32Reference_def)
qed

lemma tableCached_built: "tableCached (s\<lparr>crc32Table := buildCrc32Table\<rparr>)"
  by (simp add: tableCached_def)

lemma tableCached_new: "tableCached (getPNGCreator z)"
  by (simp add: tableCached_def getPNGCreator_def)

lemma crc32Reference_IEND: "crc32Reference (typeBuffer IEND) = 0xAE426082"
  by code_simp

text \<open>
  C4. The checksum is the standard reflected CRC-32 (polynomial 0xEDB88320, register
  initialised to 0xFFFFFFFF, inverted on output), computed a byte at a time through a table
  of 256 entries that is built on the first use and kept. The result is a function of the
  bytes alone: whether the table was built before, and whatever was summed before on the
  same assembler, it is the same value; for the tag IEND with an empty payload it is
  0xAE426082.
\<close>

theorem crc32_table_driven:
  "tableCached s \<longrightarrow>
     computeCRC32 buffer s = (crc32Reference buffer, s\<lparr>crc32Table := buildCrc32Table\<rparr>) \<and>
     tableCached (snd (computeCRC32 buffer s)) \<and>
     fst (computeCRC32 buffer (snd (computeCRC32 earlier s))) = fst (computeCRC32 buffer s) \<and>
     length buildCrc32Table = 256 \<and>
     fst (computeCRC32 (typeBuffer IEND) s) = 0xAE426082"
proof
  assume c: "tableCached s"
  show "computeCRC32 buffer s = (crc32Reference buffer, s\<lparr>crc32Table := buildCrc32Table\<rparr>) \<and>
     tableCached (snd (computeCRC32 buffer s)) \<and>
     fst (computeCRC32 buffer (snd (computeCRC32 earlier s))) = fst (computeCRC32 buffer s) \<and>
     length buildCrc32Table = 256 \<and>
     fst (computeCRC32 (typeBuffer IEND) s) = 0xAE426082"
    by (simp add: computeCRC32_cached [OF c] computeCRC32_cached [OF tableCached_built]
        tableCached_built length_buildCrc32Table crc32Reference_IEND)
qed

theorem crc32_table_driven_witness:
  "tableCached (getPNGCreator (\<lambda>b. b)) \<and>
   fst (computeCRC32 (typeBuffer IEND) (getPNGCreator (\<lambda>b. b))) = 0xAE426082 \<and>
   fst (computeCRC32 (typeBuffer IEND)
      (snd (computeCRC32 [1, 2, 3] (getPNGCreator (\<lambda>b. b))))) = 0xAE426082"
proof -
  have c: "tableCached (getPNGCreator (\<lambda>b. b))"
    by (rule tableCached_new)
  with crc32_table_driven [of "getPNGCreator (\<lambda>b. b)" "typeBuffer IEND" "[1, 2, 3]"]
  have f: "fst (computeCRC32 (typeBuffer IEND)
      (snd (computeCRC32 [1, 2, 3] (getPNGCreator (\<lambda>b. b))))) =
      fst (computeCRC32 (typeBuffer IEND) (getPNGCreator (\<lambda>b. b)))"
    and g: "fst (computeCRC32 (typeBuffer IEND) (getPNGCreator (\<lambda>b. b))) = 0xAE426082"
    by blast+
  show ?thesis
    unfolding f unfolding g using c by simp
qed

section \<open>Chunk framing\<close>

lemma byte_of_drop_bit:
  "(word_of_int (drop_bit k (int n)) :: byte) = of_nat (n div 2 ^ k mod 256)"
proof -
  have "(word_of_int (drop_bit k (int n)) :: byte) = word_of_nat (n div 2 ^ k)"
  proof -
    have "int n div 2 ^ k = int (n div 2 ^ k)"
      by (simp add: zdiv_int)
    then show ?thesis
      by (simp only: drop_bit_eq_div of_int_of_nat_eq)
  qed
  also have "\<dots> = of_nat (n div 2 ^ k mod 256)"
    by (simp add: word_of_nat_eq_iff take_bit_eq_mod)
  finally show ?thesis .
qed

lemma writeBytes_whole: "length bs = length buf \<Longrightarrow> writeBytes buf 0 bs = bs"
  by (simp add: writeBytes_def)

lemma writeUInt32BE_fresh:
  "n < 2 ^ 32 \<Longrightarrow> writeUInt32BE (alloc 4) (of_nat n) 0 = Inr (bigEndian32 n)"
  using byte_of_drop_bit [of 24 n] byte_of_drop_bit [of 16 n] byte_of_drop_bit [of 8 n]
    byte_of_drop_bit [of 0 n]
  by (simp add: writeUInt32BE_def alloc_def writeBytes_def bigEndian32_def)

lemma writeUInt32BE_fresh_iff:
  "writeUInt32BE (alloc 4) (of_nat n) 0 =
     (if n < 2 ^ 32 then Inr (bigEndian32 n) else Inl RangeError)"
proof (cases "n < 2 ^ 32")
  case True
  then show ?thesis by (simp add: writeUInt32BE_fresh)
next
  case False
  then have "2 ^ 32 \<le> n" by simp
  then have "(of_nat (2 ^ 32) :: rat) \<le> of_nat n" by (simp only: of_nat_le_iff)
  then have "(0xffffffff :: rat) < of_nat n" by simp
  with False show ?thesis by (simp add: writeUInt32BE_def)
qed


lemma writeUInt32BE_word:
  "writeUInt32BE (alloc 4) (unsigned x) 0 = Inr (bigEndian32 (unat x))" for x :: "32 word"
proof -
  have "unat x < 2 ^ 32"
    using unsigned_less [of x, where ?'a = nat] by simp
  from writeUInt32BE_fresh [OF this] show ?thesis
    by (simp only: of_nat_unat)
qed

lemma createChunk_cached:
  "tableCached s \<Longrightarrow>
   createChunk t payload s =
     (if length payload < 2 ^ 32
      then (Inr (chunkLayout (typeBuffer t) payload), s\<lparr>crc32Table := buildCrc32Table\<rparr>)
      else (Inl RangeError, s))"
proof -
  assume c: "tableCached s"
  show ?thesis
    by (simp add: createChunk_def computeCRC32_cached [OF c] writeUInt32BE_fresh_iff
        writeUInt32BE_word chunkLayout_def)
qed

text \<open>
  C3. For each of the three chunk type tags and every payload (short enough for its length
  to fit the four length bytes), the serialized chunk is the 4-byte big-endian length of
  the payload, the 4-byte tag (the ASCII codes of IHDR, IDAT or IEND), the payload, and the
  4-byte big-endian CRC-32 of tag and payload together.
\<close>

theorem chunk_framing:
  "tableCached s \<and> length payload < 2 ^ 32 \<longrightarrow>
     fst (createChunk IHDR payload s) =
       Inr (bigEndian32 (length payload) @ [0x49, 0x48, 0x44, 0x52] @ payload @
            bigEndian32 (unat (crc32Reference ([0x49, 0x48, 0x44, 0x52] @ payload)))) \<and>
     fst (createChunk IDAT payload s) =
       Inr (bigEndian32 (length payload) @ [0x49, 0x44, 0x41, 0x54] @ payload @
            bigEndian32 (unat (crc32Reference ([0x49, 0x44, 0x41, 0x54] @ payload)))) \<and>
     fst (createChunk IEND payload s) =
       Inr (bigEndian32 (length payload) @ [0x49, 0x45, 0x4E, 0x44] @ payload @
            bigEndian32 (unat (crc32Reference ([0x49, 0x45, 0x4E, 0x44] @ payload)))) \<and>
     length (bigEndian32 n) = 4"
  by (simp add: createChunk_cached chunkLayout_def bigEndian32_def typeBuffer_def)

lemma crc32Reference_terminator:
  "crc32Reference [0x49, 0x45, 0x4E, 0x44] = 0xAE426082"
proof -
  have s1: "(reflectedDivide ^^ 8) (0xFFFFFFFF XOR ucast (0x49 :: byte)) = (0x22FDE946 :: 32 word)"
    by code_simp
  have s2: "(reflectedDivide ^^ 8) (0x22FDE946 XOR ucast (0x45 :: byte)) = (0x992BAC53 :: 32 word)"
    by code_simp
  have s3: "(reflectedDivide ^^ 8) (0x992BAC53 XOR ucast (0x4E :: byte)) = (0x639F4775 :: 32 word)"
    by code_simp
  have s4: "(reflectedDivide ^^ 8) (0x639F4775 XOR ucast (0x44 :: byte)) = (0x51BD9F7D :: 32 word)"
    by code_simp
  have fin: "NOT (0x51BD9F7D :: 32 word) = 0xAE426082"
    by code_simp
  show ?thesis
    unfolding crc32Reference_def
    by (simp only: foldl.simps s1 s2 s3 s4 fin)
qed

lemma crc32Reference_header:
  "crc32Reference [0x49, 0x48, 0x44, 0x52, 0x00, 0x00, 0x00, 0x01, 0x00, 0x00, 0x00, 0x01, 0x08, 0x02, 0x00, 0x00, 0x00] = 0x907753DE"
proof -
  have s1: "(reflectedDivide ^^ 8) (0xFFFFFFFF XOR ucast (0x49 :: byte)) = (0x22FDE946 :: 32 word)"
    by code_simp
  have s2: "(reflectedDivide ^^ 8) (0x22FDE946 XOR ucast (0x48 :: byte)) = (0xE79AD0EE :: 32 word)"
    by code_simp
  have s3: "(reflectedDivide ^^ 8) (0xE79AD0EE XOR ucast (0x44 :: byte)) = (0x36E4D026 :: 32 word)"
    by code_simp
  have s4: "(reflectedDivide ^^ 8) (0x36E4D026 XOR ucast (0x52 :: byte)) = (0x575E51F5 :: 32 word)"
    by code_simp
  have s5: "(reflectedDivide ^^ 8) (0x575E51F5 XOR ucast (0x00 :: byte)) = (0xCD8058C2 :: 32 word)"
    by code_simp
  have s6: "(reflectedDivide ^^ 8) (0xCD8058C2 XOR ucast (0x00 :: byte)) = (0x75A723C4 :: 32 word)"
    by code_simp
  have s7: "(reflectedDivide ^^ 8) (0x75A723C4 XOR ucast (0x00 :: byte)) = (0x9C7CA18A :: 32 word)"
    by code_simp
  have s8: "(reflectedDivide ^^ 8) (0x9C7CA18A XOR ucast (0x01 :: byte)) = (0x7AF62609 :: 32 word)"
    by code_simp
  have s9: "(reflectedDivide ^^ 8) (0x7AF62609 XOR ucast (0x00 :: byte)) = (0x79A64E82 :: 32 word)"
    by code_simp
  have s10: "(reflectedDivide ^^ 8) (0x79A64E82 XOR ucast (0x00 :: byte)) = (0x03CF4442 :: 32 word)"
    by code_simp
  have s11: "(reflectedDivide ^^ 8) (0x03CF4442 XOR ucast (0x00 :: byte)) = (0x98D1EFF8 :: 32 word)"
    by code_simp
  have s12: "(reflectedDivide ^^ 8) (0x98D1EFF8 XOR ucast (0x01 :: byte)) = (0xC4F99B57 :: 32 word)"
    by code_simp
  have s13: "(reflectedDivide ^^ 8) (0xC4F99B57 XOR ucast (0x08 :: byte)) = (0xFB10B5FE :: 32 word)"
    by code_simp
  have s14: "(reflectedDivide ^^ 8) (0xFB10B5FE XOR ucast (0x02 :: byte)) = (0xB4F0AE82 :: 32 word)"
    by code_simp
  have s15: "(reflectedDivide ^^ 8) (0xB4F0AE82 XOR ucast (0x00 :: byte)) = (0x030212A2 :: 32 word)"
    by code_simp
  have s16: "(reflectedDivide ^^ 8) (0x030212A2 XOR ucast (0x00 :: byte)) = (0x38DBC0D6 :: 32 word)"
    by code_simp
  have s17: "(reflectedDivide ^^ 8) (0x38DBC0D6 XOR ucast (0x00 :: byte)) = (0x6F88AC21 :: 32 word)"
    by code_simp
  have fin: "NOT (0x6F88AC21 :: 32 word) = 0x907753DE"
    by code_simp
  show ?thesis
    unfolding crc32Reference_def
    by (simp only: foldl.simps s1 s2 s3 s4 s5 s6 s7 s8 s9 s10 s11 s12 s13 s14 s15 s16 s17 fin)
qed

lemma crc32Reference_data:
  "crc32Reference [0x49, 0x44, 0x41, 0x54, 0x00, 0x12, 0x34, 0x56] = 0xCCA3972F"
proof -
  have s1: "(reflectedDivide ^^ 8) (0xFFFFFFFF XOR ucast (0x49 :: byte)) = (0x22FDE946 :: 32 word)"
    by code_simp
  have s2: "(reflectedDivide ^^ 8) (0x22FDE946 XOR ucast (0x44 :: byte)) = (0xEE2C9CC5 :: 32 word)"
    by code_simp
  have s3: "(reflectedDivide ^^ 8) (0xEE2C9CC5 XOR ucast (0x41 :: byte)) = (0xEA3B6BA5 :: 32 word)"
    by code_simp
  have s4: "(reflectedDivide ^^ 8) (0xEA3B6BA5 XOR ucast (0x54 :: byte)) = (0xCA50F9E1 :: 32 word)"
    by code_simp
  have s5: "(reflectedDivide ^^ 8) (0xCA50F9E1 XOR ucast (0x00 :: byte)) = (0xD7C78217 :: 32 word)"
    by code_simp
  have s6: "(reflectedDivide ^^ 8) (0xD7C78217 XOR ucast (0x12 :: byte)) = (0x70BD330D :: 32 word)"
    by code_simp
  have s7: "(reflectedDivide ^^ 8) (0x70BD330D XOR ucast (0x34 :: byte)) = (0x5F75353B :: 32 word)"
    by code_simp
  have s8: "(reflectedDivide ^^ 8) (0x5F75353B XOR ucast (0x56 :: byte)) = (0x335C68D0 :: 32 word)"
    by code_simp
  have fin: "NOT (0x335C68D0 :: 32 word) = 0xCCA3972F"
    by code_simp
  show ?thesis
    unfolding crc32Reference_def
    by (simp only: foldl.simps s1 s2 s3 s4 s5 s6 s7 s8 fin)
qed

lemma bigEndian32_values:
  "bigEndian32 0 = [0, 0, 0, 0]"
  "bigEndian32 1 = [0, 0, 0, 1]"
  "bigEndian32 4 = [0, 0, 0, 4]"
  "bigEndian32 13 = [0, 0, 0, 0x0D]"
  "bigEndian32 0x907753DE = [0x90, 0x77, 0x53, 0xDE]"
  "bigEndian32 0xCCA3972F = [0xCC, 0xA3, 0x97, 0x2F]"
  "bigEndian32 0xAE426082 = [0xAE, 0x42, 0x60, 0x82]"
  by (simp_all add: bigEndian32_def)

lemma terminator_chunk:
  "bigEndian32 (length ([] :: Buffer)) @ [0x49, 0x45, 0x4E, 0x44] @ [] @
     bigEndian32 (unat (crc32Reference ([0x49, 0x45, 0x4E, 0x44] @ []))) =
   [0, 0, 0, 0, 0x49, 0x45, 0x4E, 0x44, 0xAE, 0x42, 0x60, 0x82]"
  by (simp add: crc32Reference_terminator bigEndian32_values)

lemma length_13: "length ([0, 0, 0, 1, 0, 0, 0, 1, 8, 2, 0, 0, 0] :: Buffer) = 13"
  by simp

lemma header_chunk:
  "bigEndian32 (length ([0, 0, 0, 1, 0, 0, 0, 1, 8, 2, 0, 0, 0] :: Buffer)) @
     [0x49, 0x48, 0x44, 0x52] @ [0, 0, 0, 1, 0, 0, 0, 1, 8, 2, 0, 0, 0] @
     bigEndian32 (unat (crc32Reference
       ([0x49, 0x48, 0x44, 0x52] @ [0, 0, 0, 1, 0, 0, 0, 1, 8, 2, 0, 0, 0]))) =
   [0, 0, 0, 0x0D, 0x49, 0x48, 0x44, 0x52, 0, 0, 0, 1, 0, 0, 0, 1, 8, 2, 0, 0, 0,
    0x90, 0x77, 0x53, 0xDE]"
  unfolding length_13 by (simp add: crc32Reference_header bigEndian32_values)

lemma length_4: "length ([0, 0x12, 0x34, 0x56] :: Buffer) = 4"
  by simp

lemma data_chunk:
  "bigEndian32 (length ([0, 0x12, 0x34, 0x56] :: Buffer)) @
     [0x49, 0x44, 0x41, 0x54] @ [0, 0x12, 0x34, 0x56] @
     bigEndian32 (unat (crc32Reference ([0x49, 0x44, 0x41, 0x54] @ [0, 0x12, 0x34, 0x56]))) =
   [0, 0, 0, 4, 0x49, 0x44, 0x41, 0x54, 0, 0x12, 0x34, 0x56, 0xCC, 0xA3, 0x97, 0x2F]"
  unfolding length_4 by (simp add: crc32Reference_data bigEndian32_values)

lemma header_1_1_2: "headerLayout 1 1 2 = [0, 0, 0, 1, 0, 0, 0, 1, 8, 2, 0, 0, 0]"
  by (simp add: headerLayout_def bigEndian32_def)

theorem chunk_framing_witness:
  "tableCached (getPNGCreator (\<lambda>b. b)) \<and> length ([] :: Buffer) < 2 ^ 32 \<and>
   fst (createChunk IEND [] (getPNGCreator (\<lambda>b. b))) =
     Inr [0, 0, 0, 0, 0x49, 0x45, 0x4E, 0x44, 0xAE, 0x42, 0x60, 0x82] \<and>
   fst (createChunk IHDR [0, 0, 0, 1, 0, 0, 0, 1, 8, 2, 0, 0, 0] (getPNGCreator (\<lambda>b. b))) =
     Inr [0, 0, 0, 0x0D, 0x49, 0x48, 0x44, 0x52, 0, 0, 0, 1, 0, 0, 0, 1, 8, 2, 0, 0, 0,
          0x90, 0x77, 0x53, 0xDE] \<and>
   fst (createChunk IDAT [0, 0x12, 0x34, 0x56] (getPNGCreator (\<lambda>b. b))) =
     Inr [0, 0, 0, 4, 0x49, 0x44, 0x41, 0x54, 0, 0x12, 0x34, 0x56, 0xCC, 0xA3, 0x97, 0x2F]"
proof -
  have c: "tableCached (getPNGCreator (\<lambda>b. b))"
    by (rule tableCached_new)
  have "tableCached (getPNGCreator (\<lambda>b. b)) \<and> length ([0, 0x12, 0x34, 0x56] :: Buffer) < 2 ^ 32"
    using c by simp
  from chunk_framing [of "getPNGCreator (\<lambda>b. b)" "[0, 0x12, 0x34, 0x56]" 0, THEN mp, OF this]
  have "fst (createChunk IDAT [0, 0x12, 0x34, 0x56] (getPNGCreator (\<lambda>b. b))) =
       Inr (bigEndian32 (length ([0, 0x12, 0x34, 0x56] :: Buffer)) @
            [0x49, 0x44, 0x41, 0x54] @ [0, 0x12, 0x34, 0x56] @
            bigEndian32 (unat (crc32Reference ([0x49, 0x44, 0x41, 0x54] @ [0, 0x12, 0x34, 0x56]))))"
    by (elim conjE)
  then have data: "fst (createChunk IDAT [0, 0x12, 0x34, 0x56] (getPNGCreator (\<lambda>b. b))) =
     Inr [0, 0, 0, 4, 0x49, 0x44, 0x41, 0x54, 0, 0x12, 0x34, 0x56, 0xCC, 0xA3, 0x97, 0x2F]"
    by (simp only: data_chunk)
  have "tableCached (getPNGCreator (\<lambda>b. b)) \<and> length ([] :: Buffer) < 2 ^ 32"
    using c by simp
  from chunk_framing [of "getPNGCreator (\<lambda>b. b)" "[]" 0, THEN mp, OF this]
  have "fst (createChunk IEND [] (getPNGCreator (\<lambda>b. b))) =
       Inr (bigEndian32 (length ([] :: Buffer)) @ [0x49, 0x45, 0x4E, 0x44] @ [] @
            bigEndian32 (unat (crc32Reference ([0x49, 0x45, 0x4E, 0x44] @ []))))"
    by (elim conjE)
  then have terminator: "fst (createChunk IEND [] (getPNGCreator (\<lambda>b. b))) =
     Inr [0, 0, 0, 0, 0x49, 0x45, 0x4E, 0x44, 0xAE, 0x42, 0x60, 0x82]"
    by (simp only: terminator_chunk)
  have "tableCached (getPNGCreator (\<lambda>b. b)) \<and>
      length ([0, 0, 0, 1, 0, 0, 0, 1, 8, 2, 0, 0, 0] :: Buffer) < 2 ^ 32"
    using c by simp
  from chunk_framing [of "getPNGCreator (\<lambda>b. b)" "[0, 0, 0, 1, 0, 0, 0, 1, 8, 2, 0, 0, 0]" 0,
      THEN mp, OF this]
  have "fst (createChunk IHDR [0, 0, 0, 1, 0, 0, 0, 1, 8, 2, 0, 0, 0] (getPNGCreator (\<lambda>b. b))) =
       Inr (bigEndian32 (length ([0, 0, 0, 1, 0, 0, 0, 1, 8, 2, 0, 0, 0] :: Buffer)) @
            [0x49, 0x48, 0x44, 0x52] @ [0, 0, 0, 1, 0, 0, 0, 1, 8, 2, 0, 0, 0] @
            bigEndian32 (unat (crc32Reference
              ([0x49, 0x48, 0x44, 0x52] @ [0, 0, 0, 1, 0, 0, 0, 1, 8, 2, 0, 0, 0]))))"
    by (elim conjE)
  then have header: "fst (createChunk IHDR [0, 0, 0, 1, 0, 0, 0, 1, 8, 2, 0, 0, 0]
      (getPNGCreator (\<lambda>b. b))) =
     Inr [0, 0, 0, 0x0D, 0x49, 0x48, 0x44, 0x52, 0, 0, 0, 1, 0, 0, 0, 1, 8, 2, 0, 0, 0,
          0x90, 0x77, 0x53, 0xDE]"
    by (simp only: header_chunk)
  have "length ([] :: Buffer) < 2 ^ 32"
    by simp
  with c terminator header data show ?thesis
    by (intro conjI)
qed

section \<open>The assembled file\<close>

lemma bigEndian32_floor:
  "0 \<le> v \<Longrightarrow>
   [word_of_int (drop_bit 24 \<lfloor>v\<rfloor>), word_of_int (drop_bit 16 \<lfloor>v\<rfloor>),
    word_of_int (drop_bit 8 \<lfloor>v\<rfloor>), word_of_int \<lfloor>v\<rfloor>] = bigEndian32 (nat \<lfloor>v\<rfloor>)"
  for v :: rat
  using byte_of_drop_bit [of 24 "nat \<lfloor>v\<rfloor>"] byte_of_drop_bit [of 16 "nat \<lfloor>v\<rfloor>"]
    byte_of_drop_bit [of 8 "nat \<lfloor>v\<rfloor>"] byte_of_drop_bit [of 0 "nat \<lfloor>v\<rfloor>"]
  by (simp add: bigEndian32_def)

lemma writeUInt32BE_iff:
  "off + 4 \<le> length buf \<Longrightarrow>
   writeUInt32BE buf v off =
     (if inU32 v then Inr (writeBytes buf off (bigEndian32 (nat \<lfloor>v\<rfloor>))) else Inl RangeError)"
  using bigEndian32_floor [of v] by (auto simp add: writeUInt32BE_def inU32_def)

lemma writeUInt8_iff:
  "off + 1 \<le> length buf \<Longrightarrow>
   writeUInt8 buf (of_int v) off =
     (if inU8 v then Inr (writeBytes buf off [of_int v]) else Inl RangeError)"
  by (auto simp add: writeUInt8_def inU8_def)

lemma length_writeBytes:
  "off + length bs \<le> length buf \<Longrightarrow> length (writeBytes buf off bs) = length buf"
  by (simp add: writeBytes_def)

lemma length_bigEndian32: "length (bigEndian32 n) = 4"
  by (simp add: bigEndian32_def)

lemma header_writes:
  "writeBytes (writeBytes (writeBytes (writeBytes (writeBytes (writeBytes (writeBytes
      (alloc 13) 0 [a1, a2, a3, a4]) 4 [b1, b2, b3, b4]) 8 [c]) 9 [d]) 10 [e]) 11 [f]) 12 [g]
   = [a1, a2, a3, a4, b1, b2, b3, b4, c, d, e, f, g]"
  by (simp add: writeBytes_def alloc_def eval_nat_numeral)

lemma createIHDRBuffer_iff:
  "createIHDRBuffer w h colorType =
     (if inU32 w \<and> inU32 h \<and> inU8 colorType
      then Inr (headerLayout (nat \<lfloor>w\<rfloor>) (nat \<lfloor>h\<rfloor>) colorType) else Inl RangeError)"
proof -
  obtain a1 a2 a3 a4 where a: "bigEndian32 (nat \<lfloor>w\<rfloor>) = [a1, a2, a3, a4]"
    by (simp add: bigEndian32_def)
  obtain b1 b2 b3 b4 where b: "bigEndian32 (nat \<lfloor>h\<rfloor>) = [b1, b2, b3, b4]"
    by (simp add: bigEndian32_def)
  have eight: "writeUInt8 buf 8 off = writeUInt8 buf (of_int 8) off"
    and zero: "writeUInt8 buf 0 off = writeUInt8 buf (of_int 0) off" for buf off
    by simp_all
  have u8: "inU8 8" "inU8 0"
    by (simp_all add: inU8_def)
  show ?thesis
    unfolding createIHDRBuffer_def eight zero
    by (simp add: writeUInt32BE_iff writeUInt8_iff length_writeBytes alloc_def a b u8
        header_writes [unfolded alloc_def] headerLayout_def del: of_int_numeral of_int_0)
qed

lemma length_headerLayout: "length (headerLayout w h colorType) = 13"
  by (simp add: headerLayout_def bigEndian32_def)

lemma finalizeCreation_cached:
  "tableCached s \<Longrightarrow> length ihdrBuffer < 2 ^ 32 \<Longrightarrow>
   finalizeCreation ihdrBuffer idatBuffer s =
     (if length idatBuffer < 2 ^ 32
      then Inr (PNG_SIGNATURE @ chunkLayout (typeBuffer IHDR) ihdrBuffer @
                chunkLayout (typeBuffer IDAT) idatBuffer @ chunkLayout (typeBuffer IEND) [])
      else Inl RangeError, s\<lparr>crc32Table := buildCrc32Table\<rparr>)"
  by (simp add: finalizeCreation_def createChunk_cached createChunk_cached [OF tableCached_built]
      alloc_def)

lemma createFromBuffer_cached:
  "tableCached s \<Longrightarrow>
   fst (createFromBuffer pixelBuffer w h colorType s) =
     (if inU32 w \<and> inU32 h \<and> inU8 colorType \<and> length (deflateSync s pixelBuffer) < 2 ^ 32
      then Inr (pngLayout (nat \<lfloor>w\<rfloor>) (nat \<lfloor>h\<rfloor>) colorType (deflateSync s pixelBuffer))
      else Inl RangeError)"
  by (simp add: createFromBuffer_def createIHDRBuffer_iff finalizeCreation_cached
      length_headerLayout pngLayout_def PNG_SIGNATURE_def typeBuffer_def)

lemma createFromCanvas_cached:
  "tableCached s \<Longrightarrow> computeImageBuffer pixelCanvas colorType = Inr imageData \<Longrightarrow>
   fst (createFromCanvas pixelCanvas (Some colorType) s) =
     (if inU32 (width pixelCanvas) \<and> inU32 (height pixelCanvas) \<and> inU8 colorType \<and>
         length (deflateSync s imageData) < 2 ^ 32
      then Inr (pngLayout (nat \<lfloor>width pixelCanvas\<rfloor>) (nat \<lfloor>height pixelCanvas\<rfloor>) colorType
                  (deflateSync s imageData))
      else Inl RangeError)"
  by (simp add: createFromCanvas_def getSize_def createIHDRBuffer_iff finalizeCreation_cached
      length_headerLayout pngLayout_def PNG_SIGNATURE_def typeBuffer_def)

lemma supported_inU8: "colorType \<in> {0, 2, 4, 6} \<Longrightarrow> inU8 colorType"
  by (auto simp add: inU8_def)

text \<open>
  C2. Every buffer that createFromBuffer or createFromCanvas returns is the 8-byte
  signature 89 50 4E 47 0D 0A 1A 0A, one IHDR chunk whose 13-byte payload is the width and
  the height as big-endian 32-bit values followed by the bytes 8, colour mode, 0, 0, 0, one
  IDAT chunk whose payload is the compressor's output (for a canvas: of the raw pixel
  stream), and one IEND chunk with empty payload, in this order; and a buffer is returned
  whenever width and height are unsigned 32-bit values, the colour mode is a supported one,
  the compressor's output is short enough for a chunk and, for a canvas, the raw pixel
  stream could be built. Without a colour mode createFromCanvas uses Truecolor.
\<close>

theorem png_file_layout:
  "tableCached s \<longrightarrow>
     (\<forall>out. fst (createFromBuffer pixelBuffer w h colorType s) = Inr out \<longrightarrow>
        out = pngLayout (nat \<lfloor>w\<rfloor>) (nat \<lfloor>h\<rfloor>) colorType (deflateSync s pixelBuffer)) \<and>
     (inU32 w \<and> inU32 h \<and> colorType \<in> {0, 2, 4, 6} \<and>
      length (deflateSync s pixelBuffer) < 2 ^ 32 \<longrightarrow>
        fst (createFromBuffer pixelBuffer w h colorType s) =
          Inr (pngLayout (nat \<lfloor>w\<rfloor>) (nat \<lfloor>h\<rfloor>) colorType (deflateSync s pixelBuffer))) \<and>
     (\<forall>out. fst (createFromCanvas pixelCanvas (Some colorType) s) = Inr out \<longrightarrow>
        (\<exists>imageData. computeImageBuffer pixelCanvas colorType = Inr imageData \<and>
           out = pngLayout (nat \<lfloor>width pixelCanvas\<rfloor>) (nat \<lfloor>height pixelCanvas\<rfloor>) colorType
                   (deflateSync s imageData))) \<and>
     (computeImageBuffer pixelCanvas colorType = Inr imageData \<and>
      inU32 (width pixelCanvas) \<and> inU32 (height pixelCanvas) \<and> colorType \<in> {0, 2, 4, 6} \<and>
      length (deflateSync s imageData) < 2 ^ 32 \<longrightarrow>
        fst (createFromCanvas pixelCanvas (Some colorType) s) =
          Inr (pngLayout (nat \<lfloor>width pixelCanvas\<rfloor>) (nat \<lfloor>height pixelCanvas\<rfloor>) colorType
                 (deflateSync s imageData))) \<and>
     createFromCanvas pixelCanvas None s = createFromCanvas pixelCanvas (Some 2) s"
proof
  assume c: "tableCached s"
  have 1: "\<forall>out. fst (createFromBuffer pixelBuffer w h colorType s) = Inr out \<longrightarrow>
        out = pngLayout (nat \<lfloor>w\<rfloor>) (nat \<lfloor>h\<rfloor>) colorType (deflateSync s pixelBuffer)"
    by (simp add: createFromBuffer_cached [OF c] split: if_splits)
  have 2: "inU32 w \<and> inU32 h \<and> colorType \<in> {0, 2, 4, 6} \<and>
      length (deflateSync s pixelBuffer) < 2 ^ 32 \<longrightarrow>
        fst (createFromBuffer pixelBuffer w h colorType s) =
          Inr (pngLayout (nat \<lfloor>w\<rfloor>) (nat \<lfloor>h\<rfloor>) colorType (deflateSync s pixelBuffer))"
    using supported_inU8 [of colorType] by (simp add: createFromBuffer_cached [OF c])
  have 3: "\<forall>out. fst (createFromCanvas pixelCanvas (Some colorType) s) = Inr out \<longrightarrow>
        (\<exists>imageData. computeImageBuffer pixelCanvas colorType = Inr imageData \<and>
           out = pngLayout (nat \<lfloor>width pixelCanvas\<rfloor>) (nat \<lfloor>height pixelCanvas\<rfloor>) colorType
                   (deflateSync s imageData))"
  proof (cases "computeImageBuffer pixelCanvas colorType")
    case (Inl e)
    then show ?thesis by (simp add: createFromCanvas_def)
  next
    case (Inr imageData)
    then show ?thesis
      by (simp add: createFromCanvas_cached [OF c Inr] split: if_splits)
  qed
  have 4: "computeImageBuffer pixelCanvas colorType = Inr imageData \<and>
      inU32 (width pixelCanvas) \<and> inU32 (height pixelCanvas) \<and> colorType \<in> {0, 2, 4, 6} \<and>
      length (deflateSync s imageData) < 2 ^ 32 \<longrightarrow>
        fst (createFromCanvas pixelCanvas (Some colorType) s) =
          Inr (pngLayout (nat \<lfloor>width pixelCanvas\<rfloor>) (nat \<lfloor>height pixelCanvas\<rfloor>) colorType
                 (deflateSync s imageData))"
  proof
    assume a: "computeImageBuffer pixelCanvas colorType = Inr imageData \<and>
      inU32 (width pixelCanvas) \<and> inU32 (height pixelCanvas) \<and> colorType \<in> {0, 2, 4, 6} \<and>
      length (deflateSync s imageData) < 2 ^ 32"
    then have "computeImageBuffer pixelCanvas colorType = Inr imageData" by simp
    from createFromCanvas_cached [OF c this] a supported_inU8 [of colorType]
    show "fst (createFromCanvas pixelCanvas (Some colorType) s) =
          Inr (pngLayout (nat \<lfloor>width pixelCanvas\<rfloor>) (nat \<lfloor>height pixelCanvas\<rfloor>) colorType
                 (deflateSync s imageData))"
      by simp
  qed
  have 5: "createFromCanvas pixelCanvas None s = createFromCanvas pixelCanvas (Some 2) s"
    by (simp add: createFromCanvas_def TRUE_COLOR_def)
  from 1 2 3 4 5 show
    "(\<forall>out. fst (createFromBuffer pixelBuffer w h colorType s) = Inr out \<longrightarrow>
        out = pngLayout (nat \<lfloor>w\<rfloor>) (nat \<lfloor>h\<rfloor>) colorType (deflateSync s pixelBuffer)) \<and>
     (inU32 w \<and> inU32 h \<and> colorType \<in> {0, 2, 4, 6} \<and>
      length (deflateSync s pixelBuffer) < 2 ^ 32 \<longrightarrow>
        fst (createFromBuffer pixelBuffer w h colorType s) =
          Inr (pngLayout (nat \<lfloor>w\<rfloor>) (nat \<lfloor>h\<rfloor>) colorType (deflateSync s pixelBuffer))) \<and>
     (\<forall>out. fst (createFromCanvas pixelCanvas (Some colorType) s) = Inr out \<longrightarrow>
        (\<exists>imageData. computeImageBuffer pixelCanvas colorType = Inr imageData \<and>
           out = pngLayout (nat \<lfloor>width pixelCanvas\<rfloor>) (nat \<lfloor>height pixelCanvas\<rfloor>) colorType
                   (deflateSync s imageData))) \<and>
     (computeImageBuffer pixelCanvas colorType = Inr imageData \<and>
      inU32 (width pixelCanvas) \<and> inU32 (height pixelCanvas) \<and> colorType \<in> {0, 2, 4, 6} \<and>
      length (deflateSync s imageData) < 2 ^ 32 \<longrightarrow>
        fst (createFromCanvas pixelCanvas (Some colorType) s) =
          Inr (pngLayout (nat \<lfloor>width pixelCanvas\<rfloor>) (nat \<lfloor>height pixelCanvas\<rfloor>) colorType
                 (deflateSync s imageData))) \<and>
     createFromCanvas pixelCanvas None s = createFromCanvas pixelCanvas (Some 2) s"
    by (intro conjI)
qed

lemma one_pixel_stream:
  "computeImageBuffer \<lparr>width = 1, height = 1, pixelMap = [[Null]], lastUsedColor = 0,
      backgroundColor = 0x123456\<rparr> 2 = Inr [0, 0x12, 0x34, 0x56]"
  by code_simp

lemma one_pixel_file:
  "pngLayout 1 1 2 [0, 0x12, 0x34, 0x56] =
     [0x89, 0x50, 0x4E, 0x47, 0x0D, 0x0A, 0x1A, 0x0A,
      0, 0, 0, 0x0D, 0x49, 0x48, 0x44, 0x52, 0, 0, 0, 1, 0, 0, 0, 1, 8, 2, 0, 0, 0,
      0x90, 0x77, 0x53, 0xDE,
      0, 0, 0, 4, 0x49, 0x44, 0x41, 0x54, 0, 0x12, 0x34, 0x56, 0xCC, 0xA3, 0x97, 0x2F,
      0, 0, 0, 0, 0x49, 0x45, 0x4E, 0x44, 0xAE, 0x42, 0x60, 0x82]"
  unfolding pngLayout_def chunkLayout_def header_1_1_2 length_13 length_4
  by (simp add: crc32Reference_header crc32Reference_data crc32Reference_terminator
      bigEndian32_values)

theorem png_file_layout_witness:
  "tableCached (getPNGCreator (\<lambda>b. b)) \<and>
   fst (createFromBuffer [0, 0x12, 0x34, 0x56] 1 1 2 (getPNGCreator (\<lambda>b. b))) =
     Inr [0x89, 0x50, 0x4E, 0x47, 0x0D, 0x0A, 0x1A, 0x0A,
      0, 0, 0, 0x0D, 0x49, 0x48, 0x44, 0x52, 0, 0, 0, 1, 0, 0, 0, 1, 8, 2, 0, 0, 0,
      0x90, 0x77, 0x53, 0xDE,
      0, 0, 0, 4, 0x49, 0x44, 0x41, 0x54, 0, 0x12, 0x34, 0x56, 0xCC, 0xA3, 0x97, 0x2F,
      0, 0, 0, 0, 0x49, 0x45, 0x4E, 0x44, 0xAE, 0x42, 0x60, 0x82] \<and>
   fst (createFromCanvas \<lparr>width = 1, height = 1, pixelMap = [[Null]], lastUsedColor = 0,
      backgroundColor = 0x123456\<rparr> (Some 2) (getPNGCreator (\<lambda>b. b))) =
     Inr [0x89, 0x50, 0x4E, 0x47, 0x0D, 0x0A, 0x1A, 0x0A,
      0, 0, 0, 0x0D, 0x49, 0x48, 0x44, 0x52, 0, 0, 0, 1, 0, 0, 0, 1, 8, 2, 0, 0, 0,
      0x90, 0x77, 0x53, 0xDE,
      0, 0, 0, 4, 0x49, 0x44, 0x41, 0x54, 0, 0x12, 0x34, 0x56, 0xCC, 0xA3, 0x97, 0x2F,
      0, 0, 0, 0, 0x49, 0x45, 0x4E, 0x44, 0xAE, 0x42, 0x60, 0x82]"
proof -
  have c: "tableCached (getPNGCreator (\<lambda>b. b))"
    by (rule tableCached_new)
  have d: "deflateSync (getPNGCreator (\<lambda>b. b)) = (\<lambda>b. b)"
    by (simp add: getPNGCreator_def)
  note all = png_file_layout [of "getPNGCreator (\<lambda>b. b)" "[0, 0x12, 0x34, 0x56]" 1 1 2
      "\<lparr>width = 1, height = 1, pixelMap = [[Null]], lastUsedColor = 0,
        backgroundColor = 0x123456\<rparr>" "[0, 0x12, 0x34, 0x56]", THEN mp, OF c]
  have "fst (createFromBuffer [0, 0x12, 0x34, 0x56] 1 1 2 (getPNGCreator (\<lambda>b. b))) =
     Inr (pngLayout 1 1 2 [0, 0x12, 0x34, 0x56])"
    using all [THEN conjunct2, THEN conjunct1] by (simp add: inU32_def d)
  moreover have "fst (createFromCanvas \<lparr>width = 1, height = 1, pixelMap = [[Null]],
      lastUsedColor = 0, backgroundColor = 0x123456\<rparr> (Some 2) (getPNGCreator (\<lambda>b. b))) =
     Inr (pngLayout 1 1 2 [0, 0x12, 0x34, 0x56])"
    using all [THEN conjunct2, THEN conjunct2, THEN conjunct2, THEN conjunct1] one_pixel_stream
    by (simp add: inU32_def d)
  ultimately have "fst (createFromBuffer [0, 0x12, 0x34, 0x56] 1 1 2 (getPNGCreator (\<lambda>b. b))) =
     Inr (pngLayout 1 1 2 [0, 0x12, 0x34, 0x56]) \<and>
    fst (createFromCanvas \<lparr>width = 1, height = 1, pixelMap = [[Null]],
      lastUsedColor = 0, backgroundColor = 0x123456\<rparr> (Some 2) (getPNGCreator (\<lambda>b. b))) =
     Inr (pngLayout 1 1 2 [0, 0x12, 0x34, 0x56])"
    by (rule conjI)
  then show ?thesis
    unfolding one_pixel_file using c by (rule conjI [rotated])
qed

section \<open>Building the pixel stream\<close>

lemma forEach_appends:
  assumes "\<And>y acc r. y \<in> set ys \<Longrightarrow> (body y acc = Inr r) = (ok y \<and> r = acc @ g y)"
  shows "(forEach ys body acc0 = Inr r) = ((\<forall>y \<in> set ys. ok y) \<and> r = acc0 @ concat (map g ys))"
  using assms
proof (induction ys arbitrary: acc0)
  case Nil
  show ?case by auto
next
  case (Cons y ys)
  have step: "(body y acc0 = Inr a) = (ok y \<and> a = acc0 @ g y)" for a
    by (rule Cons.prems) simp
  have rest: "(forEach ys body a = Inr r) = ((\<forall>y \<in> set ys. ok y) \<and> r = a @ concat (map g ys))" for a
    by (rule Cons.IH) (simp add: Cons.prems)
  show ?case
  proof (cases "body y acc0")
    case (Inl e)
    with step [of "acc0 @ g y"] show ?thesis by auto
  next
    case (Inr a)
    with step [of a] rest [of a] show ?thesis by auto
  qed
qed

lemma countTo_nat [simp]: "countTo (of_nat n) = [0..<n]"
  by (simp add: countTo_def)

lemma cellAt_resolved:
  "length pm = w \<Longrightarrow> list_all (\<lambda>column. length column = h) pm \<Longrightarrow> unsetAsNull pm \<Longrightarrow>
   x < w \<Longrightarrow> y < h \<Longrightarrow>
   cellAt (addBackgroundColor pm bg) x y = Inr (resolveCell bg (pm ! x ! y))"
  by (auto simp add: cellAt_def addBackgroundColor_def resolveCell_def unsetAsNull_def
      list_all_length split: cell.splits)

lemma createPixelBuffer_encoded:
  "(createPixelBuffer v colorType = Inr b) = (encodable v colorType \<and> b = encodedPixel v colorType)"
  by (auto simp add: encodable_def encodedPixel_def split: sum.splits)

lemma computeImageBuffer_shape:
  assumes "hasShape c w h" and nulls: "unsetAsNull (pixelMap c)"
  shows "(computeImageBuffer c colorType = Inr raw) =
     ((\<forall>y \<in> set [0..<h]. \<forall>x \<in> set [0..<w].
          encodable (resolveCell (backgroundColor c) (pixelMap c ! x ! y)) colorType) \<and>
      raw = rawPixelStream w h (pixelMap c) (backgroundColor c) colorType)"
proof -
  define pm where "pm = addBackgroundColor (pixelMap c) (backgroundColor c)"
  define enc where "enc x y = encodedPixel (resolveCell (backgroundColor c) (pixelMap c ! x ! y)) colorType"
    for x y
  define ok where "ok x y = encodable (resolveCell (backgroundColor c) (pixelMap c ! x ! y)) colorType"
    for x y
  from assms have len: "length (pixelMap c) = w"
    and cols: "list_all (\<lambda>column. length column = h) (pixelMap c)"
    and wd: "width c = of_nat w" and ht: "height c = of_nat h"
    by (simp_all add: hasShape_def)
  have inner: "(forEach [0..<w] (\<lambda>x imageBuffer'.
        andThen (cellAt pm x y) (\<lambda>colorValue.
        andThen (createPixelBuffer colorValue colorType) (\<lambda>pixel. Inr (imageBuffer' @ [pixel]))))
        acc = Inr r) =
      ((\<forall>x \<in> set [0..<w]. ok x y) \<and> r = acc @ concat (map (\<lambda>x. [enc x y]) [0..<w]))"
    if "y < h" for y acc r
  proof (rule forEach_appends)
    fix x acc' r'
    assume "x \<in> set [0..<w]"
    then have "x < w" by simp
    from cellAt_resolved [OF len cols nulls this \<open>y < h\<close>]
    have "cellAt pm x y = Inr (resolveCell (backgroundColor c) (pixelMap c ! x ! y))"
      by (simp add: pm_def)
    then show "(andThen (cellAt pm x y) (\<lambda>colorValue.
        andThen (createPixelBuffer colorValue colorType) (\<lambda>pixel. Inr (acc' @ [pixel]))) = Inr r') =
      (ok x y \<and> r' = acc' @ [enc x y])"
      by (cases "createPixelBuffer (resolveCell (backgroundColor c) (pixelMap c ! x ! y)) colorType")
        (auto simp add: ok_def enc_def encodable_def encodedPixel_def)
  qed
  have outer: "(forEach [0..<h] (\<lambda>y imageBuffer.
        forEach [0..<w] (\<lambda>x imageBuffer'.
          andThen (cellAt pm x y) (\<lambda>colorValue.
          andThen (createPixelBuffer colorValue colorType) (\<lambda>pixel. Inr (imageBuffer' @ [pixel]))))
          (imageBuffer @ [alloc 1])) [] = Inr r) =
      ((\<forall>y \<in> set [0..<h]. \<forall>x \<in> set [0..<w]. ok x y) \<and>
       r = [] @ concat (map (\<lambda>y. [0] # map (\<lambda>x. enc x y) [0..<w]) [0..<h]))" for r
  proof (rule forEach_appends)
    fix y acc r'
    assume "y \<in> set [0..<h]"
    then have "y < h" by simp
    have "concat (map (\<lambda>x. [enc x y]) [0..<w]) = map (\<lambda>x. enc x y) [0..<w]"
      by (induction w) simp_all
    with inner [OF \<open>y < h\<close>, of "acc @ [alloc 1]" r']
    show "(forEach [0..<w] (\<lambda>x imageBuffer'.
          andThen (cellAt pm x y) (\<lambda>colorValue.
          andThen (createPixelBuffer colorValue colorType) (\<lambda>pixel. Inr (imageBuffer' @ [pixel]))))
          (acc @ [alloc 1]) = Inr r') =
        ((\<forall>x \<in> set [0..<w]. ok x y) \<and> r' = acc @ [0] # map (\<lambda>x. enc x y) [0..<w])"
      by (simp add: alloc_def)
  qed
  have flat: "concat (concat (map (\<lambda>y. [0] # map (\<lambda>x. enc x y) [0..<w]) ys)) =
      concat (map (\<lambda>y. 0 # concat (map (\<lambda>x. enc x y) [0..<w])) ys)" for ys
    by (induction ys) simp_all
  show ?thesis
  proof (cases "forEach [0..<h] (\<lambda>y imageBuffer.
        forEach [0..<w] (\<lambda>x imageBuffer'.
          andThen (cellAt pm x y) (\<lambda>colorValue.
          andThen (createPixelBuffer colorValue colorType) (\<lambda>pixel. Inr (imageBuffer' @ [pixel]))))
          (imageBuffer @ [alloc 1])) []")
    case (Inl e)
    with outer [of "concat (map (\<lambda>y. [0] # map (\<lambda>x. enc x y) [0..<w]) [0..<h])"]
    show ?thesis
      by (auto simp add: computeImageBuffer_def Let_def getSize_def getPixelMap_def
          getBackgroundColor_def wd ht pm_def [symmetric] ok_def)
  next
    case (Inr r)
    with outer [of r] flat [of "[0..<h]"]
    show ?thesis
      by (auto simp add: computeImageBuffer_def Let_def getSize_def getPixelMap_def
          getBackgroundColor_def wd ht pm_def [symmetric] ok_def rawPixelStream_def enc_def)
  qed
qed

lemma encodable_valid:
  assumes "colorType \<in> {0, 2, 4, 6}" and "case v of Num n \<Rightarrow> validColor n | _ \<Rightarrow> True"
  shows "encodable v colorType"
proof (cases v)
  case (Num n)
  with assms(2) have "0 \<le> n" "n \<le> 0xffffff"
    by (simp_all add: validColor_def)
  with assms(1) Num show ?thesis
    by (auto simp add: encodable_def createPixelBuffer_def concat2_def
        createGrayscalePixelBuffer_ok createTrueColorPixelBuffer_ok createAlphaPixelBuffer_ok
        GRAYSCALE_def GRAYSCALE_ALPHA_def TRUE_COLOR_def TRUE_COLOR_ALPHA_def)
next
  case Null
  with assms(1) show ?thesis
    by (auto simp add: encodable_def createPixelBuffer_def concat2_def
        createGrayscalePixelBuffer_def createTrueColorPixelBuffer_def createAlphaPixelBuffer_def
        throwIfInvalidColorValue_def
        GRAYSCALE_def GRAYSCALE_ALPHA_def TRUE_COLOR_def TRUE_COLOR_ALPHA_def)
next
  case Undefined
  with assms(1) show ?thesis
    by (auto simp add: encodable_def createPixelBuffer_def concat2_def
        createGrayscalePixelBuffer_def createTrueColorPixelBuffer_def createAlphaPixelBuffer_def
        throwIfInvalidColorValue_def
        GRAYSCALE_def GRAYSCALE_ALPHA_def TRUE_COLOR_def TRUE_COLOR_ALPHA_def)
qed

lemma validCells_resolved:
  assumes "validCells c" and "hasShape c w h" and "x < w" and "y < h"
  shows "case resolveCell (backgroundColor c) (pixelMap c ! x ! y) of
           Num n \<Rightarrow> validColor n | _ \<Rightarrow> True"
proof -
  from assms have "x < length (pixelMap c)" and "y < length (pixelMap c ! x)"
    by (simp_all add: hasShape_def list_all_length)
  with assms(1) have "case pixelMap c ! x ! y of Num n \<Rightarrow> validColor n | _ \<Rightarrow> True"
    by (simp add: validCells_def list_all_length)
  with assms(1) show ?thesis
    by (simp add: resolveCell_def validCells_def split: cell.splits)
qed

text \<open>
  Where every unset cell of the map is \<open>null\<close> the code builds the stream of the
  specification: for a canvas of the shape its size declares and a supported colour mode,
  whatever stream is built is the row-major one over the resolved cells, and it is built
  whenever the colours of the canvas are valid colour values.
\<close>

lemma raw_pixel_stream_null:
  "hasShape c w h \<and> unsetAsNull (pixelMap c) \<and> colorType \<in> {0, 2, 4, 6} \<longrightarrow>
     (\<forall>raw. computeImageBuffer c colorType = Inr raw \<longrightarrow>
        raw = rawPixelStream w h (pixelMap c) (backgroundColor c) colorType) \<and>
     (validCells c \<longrightarrow>
        computeImageBuffer c colorType =
          Inr (rawPixelStream w h (pixelMap c) (backgroundColor c) colorType))"
proof
  assume a: "hasShape c w h \<and> unsetAsNull (pixelMap c) \<and> colorType \<in> {0, 2, 4, 6}"
  then have shape: "hasShape c w h" and nulls: "unsetAsNull (pixelMap c)"
    and mode: "colorType \<in> {0, 2, 4, 6}"
    by simp_all
  have built: "computeImageBuffer c colorType =
      Inr (rawPixelStream w h (pixelMap c) (backgroundColor c) colorType)" if "validCells c"
  proof -
    have "\<forall>y \<in> set [0..<h]. \<forall>x \<in> set [0..<w].
        encodable (resolveCell (backgroundColor c) (pixelMap c ! x ! y)) colorType"
    proof (intro ballI)
      fix y x
      assume "y \<in> set [0..<h]" and "x \<in> set [0..<w]"
      then have "x < w" and "y < h" by simp_all
      from encodable_valid [OF mode validCells_resolved [OF that shape this]]
      show "encodable (resolveCell (backgroundColor c) (pixelMap c ! x ! y)) colorType" .
    qed
    then show ?thesis
      by (simp only: computeImageBuffer_shape [OF shape nulls] simp_thms)
  qed
  have only: "\<forall>raw. computeImageBuffer c colorType = Inr raw \<longrightarrow>
        raw = rawPixelStream w h (pixelMap c) (backgroundColor c) colorType"
    by (simp only: computeImageBuffer_shape [OF shape nulls] simp_thms) blast
  from only built show "(\<forall>raw. computeImageBuffer c colorType = Inr raw \<longrightarrow>
        raw = rawPixelStream w h (pixelMap c) (backgroundColor c) colorType) \<and>
     (validCells c \<longrightarrow>
        computeImageBuffer c colorType =
          Inr (rawPixelStream w h (pixelMap c) (backgroundColor c) colorType))"
    by blast
qed

text \<open>
  The scenario of section 8 of the specification: the 2 by 2 canvas with the background
  colour 0, the cell (0, 0) set to 0x123456 and the other cells unset, in Truecolor.
\<close>

lemma two_by_two_stream:
  "computeImageBuffer \<lparr>width = 2, height = 2, pixelMap = [[Num 0x123456, Null], [Null, Null]],
      lastUsedColor = 0x123456, backgroundColor = 0\<rparr> 2 =
     Inr [0, 0x12, 0x34, 0x56, 0, 0, 0, 0, 0, 0, 0, 0, 0, 0]"
  "rawPixelStream 2 2 [[Num 0x123456, Null], [Null, Null]] 0 2 =
     [0, 0x12, 0x34, 0x56, 0, 0, 0, 0, 0, 0, 0, 0, 0, 0]"
  by code_simp+

text \<open>
  C1 does not hold of the code for every canvas. The type \<open>PixelMap\<close> of the library
  is \<open>(number | undefined)[][]\<close>, the README gives a pixel map with an
  \<open>undefined\<close> cell as its example of what a canvas returns and says that undefined
  pixels will use the background colour: the cell that is not set is \<open>undefined\<close>
  there. The private method that resolves the cells replaces a cell only where it is
  identical to \<open>null\<close>; an \<open>undefined\<close> cell stays, reaches the encoder, passes both
  range checks (every comparison with it is false) and is encoded as the colour 0. For
  the pixel map of the README, which the constructor accepts, with the background colour
  0x0000FF in Truecolor, the pixel (1, 0) of the stream the code builds is 00 00 00, where
  the stream of the specification has the background colour 00 00 FF.
\<close>

theorem raw_pixel_stream_undefined:
  "newPixelCanvas (Some \<lparr>opt_width = JNum 2, opt_height = JNum 2,
        opt_backgroundColor = JNum 0x0000FF,
        opt_pixelMap = Some [[Num 0xFF0000, Num 0x00FF00], [Undefined, Num 0xFFFFFF]]\<rparr>) =
     Inr \<lparr>width = 2, height = 2,
          pixelMap = [[Num 0xFF0000, Num 0x00FF00], [Undefined, Num 0xFFFFFF]],
          lastUsedColor = 0, backgroundColor = 0x0000FF\<rparr> \<and>
   computeImageBuffer \<lparr>width = 2, height = 2,
        pixelMap = [[Num 0xFF0000, Num 0x00FF00], [Undefined, Num 0xFFFFFF]],
        lastUsedColor = 0, backgroundColor = 0x0000FF\<rparr> 2 =
     Inr [0, 0xFF, 0, 0, 0, 0, 0, 0, 0, 0xFF, 0, 0xFF, 0xFF, 0xFF] \<and>
   rawPixelStream 2 2 [[Num 0xFF0000, Num 0x00FF00], [Undefined, Num 0xFFFFFF]] 0x0000FF 2 =
     [0, 0xFF, 0, 0, 0, 0, 0xFF, 0, 0, 0xFF, 0, 0xFF, 0xFF, 0xFF]"
  by code_simp

section \<open>Scaling\<close>

lemma forEach_append:
  "forEach (as @ bs) body s = andThen (forEach as body s) (forEach bs body)"
  by (induction as arbitrary: s) (auto simp add: andThen_def split: sum.splits)

lemma forEach_pairs:
  "forEach (map (Pair x) ys) (\<lambda>(x, y). body x y) s = forEach ys (body x) s"
  by (induction ys arbitrary: s) (auto simp add: andThen_def split: sum.splits)

lemma forEach_nested:
  "forEach xs (\<lambda>x. forEach ys (body x)) s = forEach (List.product xs ys) (\<lambda>(x, y). body x y) s"
proof (induction xs arbitrary: s)
  case Nil
  show ?case by simp
next
  case (Cons x xs)
  have "forEach xs (\<lambda>x. forEach ys (body x)) = forEach (List.product xs ys) (\<lambda>(x, y). body x y)"
    by (rule ext) (rule Cons.IH)
  then show ?case
    by (simp add: forEach_append forEach_pairs)
qed

lemma arrayIndex_nat [simp]: "n < 2 ^ 32 - 1 \<Longrightarrow> arrayIndex (of_nat n) = Some n"
  by (simp add: arrayIndex_def)

lemma setCell_inside:
  "X < length m \<Longrightarrow> Y < length (m ! X) \<Longrightarrow> length m < 2 ^ 32 \<Longrightarrow> length (m ! X) < 2 ^ 32 \<Longrightarrow>
   setCell m (of_nat X) (of_nat Y) v = Inr (m[X := (m ! X)[Y := v]])"
  by (simp add: setCell_def arraySet_def)

lemma forEach_writes:
  assumes "length m0 = W" and "\<forall>X < W. length (m0 ! X) = H"
    and "W < 2 ^ 32" and "H < 2 ^ 32"
    and "\<And>t m. t \<in> set ts \<Longrightarrow>
           fx t < W \<and> fy t < H \<and>
           body t m = setCell m (of_nat (fx t)) (of_nat (fy t)) (V (fx t) (fy t))"
  shows "\<exists>m. forEach ts body m0 = Inr m \<and> length m = W \<and> (\<forall>X < W. length (m ! X) = H) \<and>
     (\<forall>X < W. \<forall>Y < H. m ! X ! Y =
        (if (X, Y) \<in> (\<lambda>t. (fx t, fy t)) ` set ts then V X Y else m0 ! X ! Y))"
  using assms
proof (induction ts arbitrary: m0)
  case Nil
  then show ?case by simp
next
  case (Cons t ts)
  define m1 where "m1 = m0[fx t := (m0 ! fx t)[fy t := V (fx t) (fy t)]]"
  from Cons.prems(5) [of t] have tgt: "fx t < W" "fy t < H"
    and wr: "body t m0 = setCell m0 (of_nat (fx t)) (of_nat (fy t)) (V (fx t) (fy t))"
    by simp_all
  from Cons.prems(1,2,3,4) tgt have step: "body t m0 = Inr m1"
    by (simp add: wr m1_def setCell_inside)
  have len1: "length m1 = W"
    using Cons.prems(1) by (simp add: m1_def)
  have cols1: "\<forall>X < W. length (m1 ! X) = H"
    using Cons.prems(1,2) tgt by (auto simp add: m1_def nth_list_update)
  have cell1: "m1 ! X ! Y = (if (X, Y) = (fx t, fy t) then V X Y else m0 ! X ! Y)"
    if "X < W" "Y < H" for X Y
    using that Cons.prems(1,2) tgt by (auto simp add: m1_def nth_list_update)
  have "\<exists>m. forEach ts body m1 = Inr m \<and> length m = W \<and> (\<forall>X < W. length (m ! X) = H) \<and>
     (\<forall>X < W. \<forall>Y < H. m ! X ! Y =
        (if (X, Y) \<in> (\<lambda>t. (fx t, fy t)) ` set ts then V X Y else m1 ! X ! Y))"
  proof (rule Cons.IH [OF len1 cols1 Cons.prems(3,4)])
    fix t' m'
    assume "t' \<in> set ts"
    then have "t' \<in> set (t # ts)" by simp
    then show "fx t' < W \<and> fy t' < H \<and>
           body t' m' = setCell m' (of_nat (fx t')) (of_nat (fy t')) (V (fx t') (fy t'))"
      by (rule Cons.prems(5))
  qed
  then obtain m where m1: "forEach ts body m1 = Inr m" and m2: "length m = W"
    and m3: "\<forall>X < W. length (m ! X) = H"
    and m4: "\<forall>X < W. \<forall>Y < H. m ! X ! Y =
        (if (X, Y) \<in> (\<lambda>t. (fx t, fy t)) ` set ts then V X Y else m1 ! X ! Y)"
    by (elim exE conjE)
  have m5: "\<forall>X < W. \<forall>Y < H. m ! X ! Y =
        (if (X, Y) \<in> (\<lambda>t. (fx t, fy t)) ` set (t # ts) then V X Y else m0 ! X ! Y)"
  proof (intro allI impI)
    fix X Y
    assume "X < W" and "Y < H"
    with m4 have "m ! X ! Y =
        (if (X, Y) \<in> (\<lambda>t. (fx t, fy t)) ` set ts then V X Y else m1 ! X ! Y)"
      by simp
    with cell1 [OF \<open>X < W\<close> \<open>Y < H\<close>]
    show "m ! X ! Y =
        (if (X, Y) \<in> (\<lambda>t. (fx t, fy t)) ` set (t # ts) then V X Y else m0 ! X ! Y)"
      by (cases "(X, Y) = (fx t, fy t)") auto
  qed
  from step m1 have "forEach (t # ts) body m0 = Inr m"
    by simp
  with m2 m3 m5 show ?case by blast
qed


lemma forEach_nested_fun:
  "forEach xs (\<lambda>x. forEach ys (body x)) = forEach (List.product xs ys) (\<lambda>(x, y). body x y)"
  by (rule ext) (rule forEach_nested)

lemma block_index_less: "x < w \<Longrightarrow> i < f \<Longrightarrow> x * f + i < w * f" for x w i f :: nat
proof -
  assume "x < w" and "i < f"
  then have "x * f + i < Suc x * f" by simp
  also from \<open>x < w\<close> have "Suc x * f \<le> w * f"
    by (simp only: mult_le_mono1 Suc_leI)
  finally show ?thesis .
qed

lemma scale_loops:
  assumes shape: "length src = w" "\<forall>x < w. length (src ! x) = h" and f: "0 < f"
    and new: "length m0 = w * f" "\<forall>X < w * f. length (m0 ! X) = h * f"
    and fits: "w * f < 2 ^ 32" "h * f < 2 ^ 32"
  shows "\<exists>m. forEach [0..<w] (\<lambda>x. forEach [0..<h] (\<lambda>y.
             forEach [0..<f] (\<lambda>i. forEach [0..<f] (\<lambda>j pm'.
               andThen (cellAt src x y) (\<lambda>v.
                 setCell pm' (of_nat x * of_nat f + of_nat i) (of_nat y * of_nat f + of_nat j) v)))))
           m0 = Inr m \<and>
         length m = w * f \<and> (\<forall>X < w * f. length (m ! X) = h * f) \<and>
         (\<forall>X < w * f. \<forall>Y < h * f. m ! X ! Y = src ! (X div f) ! (Y div f))"
proof -
  define ts where "ts = List.product [0..<w] (List.product [0..<h] (List.product [0..<f] [0..<f]))"
  define body where "body = (\<lambda>(x, y, i, j) pm'.
      andThen (cellAt src x y) (\<lambda>v.
        setCell pm' (of_nat x * of_nat f + of_nat i) (of_nat y * of_nat f + of_nat j) v))"
  define fx where "fx = (\<lambda>(x, y :: nat, i, j :: nat). x * f + i)"
  define fy where "fy = (\<lambda>(x :: nat, y, i :: nat, j). y * f + j)"
  define V where "V X Y = src ! (X div f) ! (Y div f)" for X Y
  have flat: "forEach [0..<w] (\<lambda>x. forEach [0..<h] (\<lambda>y.
             forEach [0..<f] (\<lambda>i. forEach [0..<f] (\<lambda>j pm'.
               andThen (cellAt src x y) (\<lambda>v.
                 setCell pm' (of_nat x * of_nat f + of_nat i) (of_nat y * of_nat f + of_nat j) v)))))
      = forEach ts body"
    by (simp add: forEach_nested_fun ts_def body_def case_prod_unfold)
  have "\<exists>m. forEach ts body m0 = Inr m \<and> length m = w * f \<and>
      (\<forall>X < w * f. length (m ! X) = h * f) \<and>
      (\<forall>X < w * f. \<forall>Y < h * f. m ! X ! Y =
        (if (X, Y) \<in> (\<lambda>t. (fx t, fy t)) ` set ts then V X Y else m0 ! X ! Y))"
  proof (rule forEach_writes [OF new fits])
    fix t :: "nat \<times> nat \<times> nat \<times> nat" and m
    assume "t \<in> set ts"
    then obtain x y i j where t: "t = (x, y, i, j)" and b: "x < w" "y < h" "i < f" "j < f"
      by (auto simp add: ts_def)
    from b shape have "cellAt src x y = Inr (src ! x ! y)"
      by (simp add: cellAt_def)
    moreover from b have "(x * f + i) div f = x" "(y * f + j) div f = y"
      by simp_all
    ultimately show "fx t < w * f \<and> fy t < h * f \<and>
           body t m = setCell m (of_nat (fx t)) (of_nat (fy t)) (V (fx t) (fy t))"
      using b by (simp add: t fx_def fy_def body_def V_def block_index_less)
  qed
  then obtain m where m1: "forEach ts body m0 = Inr m" and m2: "length m = w * f"
    and m3: "\<forall>X < w * f. length (m ! X) = h * f"
    and m4: "\<forall>X < w * f. \<forall>Y < h * f. m ! X ! Y =
        (if (X, Y) \<in> (\<lambda>t. (fx t, fy t)) ` set ts then V X Y else m0 ! X ! Y)"
    by (elim exE conjE)
  have m5: "\<forall>X < w * f. \<forall>Y < h * f. m ! X ! Y = src ! (X div f) ! (Y div f)"
  proof (intro allI impI)
    fix X Y
    assume X: "X < w * f" and Y: "Y < h * f"
    from X Y f have "(X div f, Y div f, X mod f, Y mod f) \<in> set ts"
      by (simp add: ts_def less_mult_imp_div_less)
    then have "(\<lambda>t. (fx t, fy t)) (X div f, Y div f, X mod f, Y mod f) \<in> (\<lambda>t. (fx t, fy t)) ` set ts"
      by (rule imageI)
    then have "(X, Y) \<in> (\<lambda>t. (fx t, fy t)) ` set ts"
      by (simp add: fx_def fy_def)
    with m4 X Y show "m ! X ! Y = src ! (X div f) ! (Y div f)"
      by (simp add: V_def)
  qed
  from m1 m2 m3 m5 show ?thesis
    unfolding flat by blast
qed


lemma scaleOnePixel_fun:
  "scaleOnePixel c x y (of_nat f) =
     forEach [0..<f] (\<lambda>i. forEach [0..<f] (\<lambda>j pm'.
       andThen (cellAt (pixelMap c) x y) (\<lambda>v.
         setCell pm' (of_nat x * of_nat f + of_nat i) (of_nat y * of_nat f + of_nat j) v)))"
  by (rule ext) (simp add: scaleOnePixel_def)

lemma throwIfNotInteger_nat: "throwIfNotInteger (of_nat f) = Inr ()"
  by (simp add: throwIfNotInteger_def)

lemma setScale_scaled:
  assumes shape: "hasShape c w h" and f: "1 \<le> f" "f \<le> 100"
    and fits: "w * f < 2 ^ 32" "w = 0 \<or> h * f < 2 ^ 32"
  shows "\<exists>m. setScale (JNum (of_nat f)) c =
           (Inr (), c\<lparr>width := of_nat (w * f), height := of_nat (h * f), pixelMap := m\<rparr>) \<and>
         length m = w * f \<and> (\<forall>X < w * f. length (m ! X) = h * f) \<and>
         (\<forall>X < w * f. \<forall>Y < h * f. m ! X ! Y = pixelMap c ! (X div f) ! (Y div f))"
proof -
  from shape have wd: "width c = of_nat w" and ht: "height c = of_nat h"
    and len: "length (pixelMap c) = w" and cols: "\<forall>x < w. length (pixelMap c ! x) = h"
    by (simp_all add: hasShape_def list_all_length)
  from f have pos: "0 < f" by simp
  from f have range: "\<not> (of_nat f :: rat) < 1" "\<not> 100 < (of_nat f :: rat)"
    by (simp_all add: not_less)
  from fits have "w * f = 0 \<or> h * f < 2 ^ 32" by auto
  with fits(1)
  have "initPixelMap (of_nat (w * f)) (of_nat (h * f)) = Inr (replicate (w * f) (replicate (h * f) Null))"
    by (rule initPixelMap_nat)
  then have init: "initPixelMap (of_nat w * of_nat f) (of_nat h * of_nat f) =
      Inr (replicate (w * f) (replicate (h * f) Null))"
    by simp
  have "\<exists>m. forEach [0..<w] (\<lambda>x. forEach [0..<h] (\<lambda>y.
             forEach [0..<f] (\<lambda>i. forEach [0..<f] (\<lambda>j pm'.
               andThen (cellAt (pixelMap c) x y) (\<lambda>v.
                 setCell pm' (of_nat x * of_nat f + of_nat i) (of_nat y * of_nat f + of_nat j) v)))))
           (replicate (w * f) (replicate (h * f) Null)) = Inr m \<and>
         length m = w * f \<and> (\<forall>X < w * f. length (m ! X) = h * f) \<and>
         (\<forall>X < w * f. \<forall>Y < h * f. m ! X ! Y = pixelMap c ! (X div f) ! (Y div f))"
  proof (cases "w = 0")
    case True
    then show ?thesis by simp
  next
    case False
    with fits have "h * f < 2 ^ 32" by simp
    with scale_loops [OF len cols pos, of "replicate (w * f) (replicate (h * f) Null)"] fits(1)
    show ?thesis by simp
  qed
  then obtain m where m1: "forEach [0..<w] (\<lambda>x. forEach [0..<h] (\<lambda>y.
             forEach [0..<f] (\<lambda>i. forEach [0..<f] (\<lambda>j pm'.
               andThen (cellAt (pixelMap c) x y) (\<lambda>v.
                 setCell pm' (of_nat x * of_nat f + of_nat i) (of_nat y * of_nat f + of_nat j) v)))))
           (replicate (w * f) (replicate (h * f) Null)) = Inr m"
    and m2: "length m = w * f" and m3: "\<forall>X < w * f. length (m ! X) = h * f"
    and m4: "\<forall>X < w * f. \<forall>Y < h * f. m ! X ! Y = pixelMap c ! (X div f) ! (Y div f)"
    by (elim exE conjE)
  have "setScale (JNum (of_nat f)) c =
      (Inr (), c\<lparr>width := of_nat (w * f), height := of_nat (h * f), pixelMap := m\<rparr>)"
    using range
    by (simp add: setScale_def throwIfNegative_def throwIfOutOfRange_def throwIfNotInteger_nat
        wd ht init scaleOnePixel_fun m1)
  with m2 m3 m4 show ?thesis by blast
qed

lemma setScale_too_large:
  assumes shape: "hasShape c w h" and f: "1 \<le> f" "f \<le> 100"
    and large: "\<not> (w * f < 2 ^ 32 \<and> (w = 0 \<or> h * f < 2 ^ 32))"
  shows "setScale (JNum (of_nat f)) c = (Inl RangeError, c)"
proof -
  from shape have wd: "width c = of_nat w" and ht: "height c = of_nat h"
    by (simp_all add: hasShape_def)
  from f have range: "\<not> (of_nat f :: rat) < 1" "\<not> 100 < (of_nat f :: rat)"
    by (simp_all add: not_less)
  have le: "((of_nat n :: rat) \<le> 0xffffffff) = (n < 2 ^ 32)" for n
  proof -
    have "((of_nat n :: rat) \<le> 0xffffffff) = ((of_nat n :: rat) \<le> of_nat 0xffffffff)"
      by simp
    also have "\<dots> = (n \<le> 0xffffffff)"
      by (simp only: of_nat_le_iff)
    also have "\<dots> = (n < 2 ^ 32)"
      by (simp, arith)
    finally show ?thesis .
  qed
  have "initPixelMap (of_nat (w * f)) (of_nat (h * f)) = Inl RangeError"
    using large f(1) unfolding initPixelMap_cases le by auto
  then have init: "initPixelMap (of_nat w * of_nat f) (of_nat h * of_nat f) = Inl RangeError"
    by simp
  show ?thesis
    using range
    by (simp add: setScale_def throwIfNegative_def throwIfOutOfRange_def throwIfNotInteger_nat
        wd ht init)
qed

lemma setScale_rejects:
  "(\<forall>n. scale \<noteq> JNum n) \<Longrightarrow> setScale scale c = (Inl TypeError, c)"
  "n < 1 \<or> 100 < n \<Longrightarrow> setScale (JNum n) c = (Inl RangeError, c)"
  "1 \<le> n \<Longrightarrow> n \<le> 100 \<Longrightarrow> of_int \<lfloor>n\<rfloor> \<noteq> n \<Longrightarrow> setScale (JNum n) c = (Inl TypeError, c)"
  by (auto simp add: setScale_def throwIfNotNumber_not throwIfNegative_def throwIfOutOfRange_def
      throwIfNotInteger_def)

lemma setScale_one:
  assumes "hasShape c w h" and fits: "w < 2 ^ 32" "w = 0 \<or> h < 2 ^ 32"
  shows "setScale (JNum 1) c = (Inr (), c)"
proof -
  from fits have "w * 1 < 2 ^ 32" "w = 0 \<or> h * 1 < 2 ^ 32"
    by simp_all
  from setScale_scaled [OF assms(1) _ _ this]
  obtain m where m1: "setScale (JNum 1) c =
      (Inr (), c\<lparr>width := of_nat w, height := of_nat h, pixelMap := m\<rparr>)"
    and m2: "length m = w" and m3: "\<forall>X < w. length (m ! X) = h"
    and m4: "\<forall>X < w. \<forall>Y < h. m ! X ! Y = pixelMap c ! X ! Y"
    by auto
  from assms have wd: "width c = of_nat w" and ht: "height c = of_nat h"
    and len: "length (pixelMap c) = w" and cols: "\<forall>x < w. length (pixelMap c ! x) = h"
    by (simp_all add: hasShape_def list_all_length)
  have "m = pixelMap c"
  proof (rule nth_equalityI)
    show "length m = length (pixelMap c)" by (simp add: m2 len)
    fix X
    assume "X < length m"
    then have X: "X < w" by (simp add: m2)
    show "m ! X = pixelMap c ! X"
      using X m3 m4 cols by (intro nth_equalityI) simp_all
  qed
  with m1 show ?thesis
    by (simp add: wd [symmetric] ht [symmetric])
qed


text \<open>
  C7, as amended. For every integer factor f in [1, 100] and every w by h canvas whose
  scaled size fits an array (w f is at most 2^32 - 1 and, unless w is 0, so is h f),
  setScale(f) succeeds and yields a canvas of size (w f, h f) and of that shape in which,
  for every original coordinate (x, y), all f by f cells at the positions
  (x f .. x f + f - 1, y f .. y f + f - 1) hold the value of the original cell (x, y), an
  unset cell as unset; both colours of the canvas stay. Where the scaled size does not fit
  an array, setScale(f) throws a RangeError and leaves the canvas as it was. A factor that
  is not a number, lies outside [1, 100] or is not an integer makes setScale throw and
  leaves the canvas as it was; the factor 1 leaves the whole canvas as it was. (The size
  of a canvas itself always fits: its columns are arrays. The lists of the model can be
  longer than an array, which is why the clause of the factor 1 names the bound.)
\<close>

theorem set_scale_blocks:
  "(hasShape c w h \<and> 1 \<le> f \<and> f \<le> 100 \<and> w * f < 2 ^ 32 \<and> (w = 0 \<or> h * f < 2 ^ 32) \<longrightarrow>
      (\<exists>c'. setScale (JNum (of_nat f)) c = (Inr (), c') \<and>
         getSize c' = (of_nat (w * f), of_nat (h * f)) \<and> hasShape c' (w * f) (h * f) \<and>
         (\<forall>x < w. \<forall>y < h. \<forall>i < f. \<forall>j < f.
            getPixelMap c' ! (x * f + i) ! (y * f + j) = getPixelMap c ! x ! y) \<and>
         lastUsedColor c' = lastUsedColor c \<and>
         getBackgroundColor c' = getBackgroundColor c)) \<and>
   (hasShape c w h \<and> 1 \<le> f \<and> f \<le> 100 \<and> \<not> (w * f < 2 ^ 32 \<and> (w = 0 \<or> h * f < 2 ^ 32)) \<longrightarrow>
      setScale (JNum (of_nat f)) c = (Inl RangeError, c)) \<and>
   (hasShape c w h \<and> w < 2 ^ 32 \<and> (w = 0 \<or> h < 2 ^ 32) \<longrightarrow>
      setScale (JNum 1) c = (Inr (), c)) \<and>
   ((\<forall>n. scale \<noteq> JNum n) \<or>
    (\<exists>n. scale = JNum n \<and> (n < 1 \<or> 100 < n \<or> of_int \<lfloor>n\<rfloor> \<noteq> n)) \<longrightarrow>
      (\<exists>e. setScale scale c = (Inl e, c)))"
proof (intro conjI impI)
  assume a: "hasShape c w h \<and> 1 \<le> f \<and> f \<le> 100 \<and> w * f < 2 ^ 32 \<and> (w = 0 \<or> h * f < 2 ^ 32)"
  then have shape: "hasShape c w h" and f: "1 \<le> f" "f \<le> 100"
    and fits: "w * f < 2 ^ 32" "w = 0 \<or> h * f < 2 ^ 32"
    by simp_all
  from setScale_scaled [OF shape f fits]
  obtain m where m1: "setScale (JNum (of_nat f)) c =
      (Inr (), c\<lparr>width := of_nat (w * f), height := of_nat (h * f), pixelMap := m\<rparr>)"
    and m2: "length m = w * f" and m3: "\<forall>X < w * f. length (m ! X) = h * f"
    and m4: "\<forall>X < w * f. \<forall>Y < h * f. m ! X ! Y = pixelMap c ! (X div f) ! (Y div f)"
    by auto
  define c' where "c' = c\<lparr>width := of_nat (w * f), height := of_nat (h * f), pixelMap := m\<rparr>"
  have s: "hasShape c' (w * f) (h * f)"
    using m2 m3 by (simp add: c'_def hasShape_def list_all_length)
  have b: "\<forall>x < w. \<forall>y < h. \<forall>i < f. \<forall>j < f.
      getPixelMap c' ! (x * f + i) ! (y * f + j) = getPixelMap c ! x ! y"
  proof (intro allI impI)
    fix x y i j
    assume b: "x < w" "y < h" "i < f" "j < f"
    then have "x * f + i < w * f" and "y * f + j < h * f"
      by (simp_all add: block_index_less)
    with m4 have "m ! (x * f + i) ! (y * f + j) =
        pixelMap c ! ((x * f + i) div f) ! ((y * f + j) div f)"
      by simp
    with b show "getPixelMap c' ! (x * f + i) ! (y * f + j) = getPixelMap c ! x ! y"
      by (simp add: c'_def getPixelMap_def)
  qed
  have "setScale (JNum (of_nat f)) c = (Inr (), c') \<and>
         getSize c' = (of_nat (w * f), of_nat (h * f)) \<and> hasShape c' (w * f) (h * f) \<and>
         (\<forall>x < w. \<forall>y < h. \<forall>i < f. \<forall>j < f.
            getPixelMap c' ! (x * f + i) ! (y * f + j) = getPixelMap c ! x ! y) \<and>
         lastUsedColor c' = lastUsedColor c \<and>
         getBackgroundColor c' = getBackgroundColor c"
    using m1 s b by (simp add: c'_def getSize_def getBackgroundColor_def)
  then show "\<exists>c'. setScale (JNum (of_nat f)) c = (Inr (), c') \<and>
         getSize c' = (of_nat (w * f), of_nat (h * f)) \<and> hasShape c' (w * f) (h * f) \<and>
         (\<forall>x < w. \<forall>y < h. \<forall>i < f. \<forall>j < f.
            getPixelMap c' ! (x * f + i) ! (y * f + j) = getPixelMap c ! x ! y) \<and>
         lastUsedColor c' = lastUsedColor c \<and>
         getBackgroundColor c' = getBackgroundColor c"
    by (rule exI)
next
  assume "hasShape c w h \<and> 1 \<le> f \<and> f \<le> 100 \<and> \<not> (w * f < 2 ^ 32 \<and> (w = 0 \<or> h * f < 2 ^ 32))"
  then have "hasShape c w h" "1 \<le> f" "f \<le> 100" "\<not> (w * f < 2 ^ 32 \<and> (w = 0 \<or> h * f < 2 ^ 32))"
    by blast+
  then show "setScale (JNum (of_nat f)) c = (Inl RangeError, c)"
    by (rule setScale_too_large)
next
  assume "hasShape c w h \<and> w < 2 ^ 32 \<and> (w = 0 \<or> h < 2 ^ 32)"
  then have "hasShape c w h" "w < 2 ^ 32" "w = 0 \<or> h < 2 ^ 32"
    by blast+
  then show "setScale (JNum 1) c = (Inr (), c)"
    by (rule setScale_one)
next
  assume "(\<forall>n. scale \<noteq> JNum n) \<or>
    (\<exists>n. scale = JNum n \<and> (n < 1 \<or> 100 < n \<or> of_int \<lfloor>n\<rfloor> \<noteq> n))"
  then show "\<exists>e. setScale scale c = (Inl e, c)"
  proof
    assume "\<forall>n. scale \<noteq> JNum n"
    then show ?thesis by (simp add: setScale_rejects(1))
  next
    assume "\<exists>n. scale = JNum n \<and> (n < 1 \<or> 100 < n \<or> of_int \<lfloor>n\<rfloor> \<noteq> n)"
    then obtain n where n: "scale = JNum n" and bad: "n < 1 \<or> 100 < n \<or> of_int \<lfloor>n\<rfloor> \<noteq> n"
      by blast
    show ?thesis
    proof (cases "n < 1 \<or> 100 < n")
      case True
      then show ?thesis by (simp add: n setScale_rejects(2))
    next
      case False
      with bad have "1 \<le> n" "n \<le> 100" "of_int \<lfloor>n\<rfloor> \<noteq> n" by auto
      then show ?thesis by (simp add: n setScale_rejects(3))
    qed
  qed
qed

lemma scaled_two_by_two:
  "setScale (JNum 2) \<lparr>width = 2, height = 2, pixelMap = [[Num 0x123456, Null], [Null, Null]],
      lastUsedColor = 0x123456, backgroundColor = 0\<rparr> =
   (Inr (), \<lparr>width = 4, height = 4,
      pixelMap = [[Num 0x123456, Num 0x123456, Null, Null],
                  [Num 0x123456, Num 0x123456, Null, Null],
                  [Null, Null, Null, Null], [Null, Null, Null, Null]],
      lastUsedColor = 0x123456, backgroundColor = 0\<rparr>)"
  by code_simp

theorem set_scale_blocks_witness:
  "hasShape \<lparr>width = 2, height = 2, pixelMap = [[Num 0x123456, Null], [Null, Null]],
      lastUsedColor = 0x123456, backgroundColor = 0\<rparr> 2 2 \<and>
   setScale (JNum 1) \<lparr>width = 2, height = 2, pixelMap = [[Num 0x123456, Null], [Null, Null]],
      lastUsedColor = 0x123456, backgroundColor = 0\<rparr> =
     (Inr (), \<lparr>width = 2, height = 2, pixelMap = [[Num 0x123456, Null], [Null, Null]],
      lastUsedColor = 0x123456, backgroundColor = 0\<rparr>) \<and>
   (\<exists>c'. setScale (JNum 2) \<lparr>width = 2, height = 2,
        pixelMap = [[Num 0x123456, Null], [Null, Null]],
        lastUsedColor = 0x123456, backgroundColor = 0\<rparr> = (Inr (), c') \<and>
      getSize c' = (4, 4) \<and> getPixelMap c' ! 1 ! 1 = Num 0x123456) \<and>
   (\<exists>e. setScale (JNum (5 / 2)) \<lparr>width = 2, height = 2,
        pixelMap = [[Num 0x123456, Null], [Null, Null]],
        lastUsedColor = 0x123456, backgroundColor = 0\<rparr> =
      (Inl e, \<lparr>width = 2, height = 2, pixelMap = [[Num 0x123456, Null], [Null, Null]],
        lastUsedColor = 0x123456, backgroundColor = 0\<rparr>))"
proof -
  define c where "c = \<lparr>width = 2, height = 2, pixelMap = [[Num 0x123456, Null], [Null, Null]],
      lastUsedColor = 0x123456, backgroundColor = 0\<rparr>"
  have shape: "hasShape c 2 2"
    by (simp add: c_def hasShape_def)
  note all = set_scale_blocks [of c 2 2 2 "JNum (5 / 2)"]
  have "hasShape c 2 2 \<and> (1 :: nat) \<le> 2 \<and> (2 :: nat) \<le> 100 \<and> (2 :: nat) * 2 < 2 ^ 32 \<and>
      ((2 :: nat) = 0 \<or> (2 :: nat) * 2 < 2 ^ 32)"
    using shape by simp
  from all [THEN conjunct1, THEN mp, OF this]
  obtain c' where c1: "setScale (JNum (of_nat 2)) c = (Inr (), c')"
    and c2: "getSize c' = (of_nat (2 * 2), of_nat (2 * 2))"
    and c3: "\<forall>x < 2. \<forall>y < 2. \<forall>i < 2. \<forall>j < 2.
            getPixelMap c' ! (x * 2 + i) ! (y * 2 + j) = getPixelMap c ! x ! y"
    by blast
  from c3 [rule_format, of 0 0 1 1] have c4: "getPixelMap c' ! 1 ! 1 = Num 0x123456"
    by (simp add: c_def getPixelMap_def)
  have two: "\<exists>c'. setScale (JNum 2) c = (Inr (), c') \<and> getSize c' = (4, 4) \<and>
      getPixelMap c' ! 1 ! 1 = Num 0x123456"
    using c1 c2 c4 by simp
  have "hasShape c 2 2 \<and> (2 :: nat) < 2 ^ 32 \<and> ((2 :: nat) = 0 \<or> (2 :: nat) < 2 ^ 32)"
    using shape by simp
  from all [THEN conjunct2, THEN conjunct2, THEN conjunct1, THEN mp, OF this]
  have one: "setScale (JNum 1) c = (Inr (), c)" .
  have "\<lfloor>5 / 2 :: rat\<rfloor> = 2"
    by (rule floor_unique) simp_all
  then have "rat_of_int \<lfloor>5 / 2 :: rat\<rfloor> \<noteq> 5 / 2"
    by (simp only:)
  then have "(\<forall>n. JNum (5 / 2) \<noteq> JNum n) \<or>
    (\<exists>n. JNum (5 / 2) = JNum n \<and> (n < 1 \<or> 100 < n \<or> of_int \<lfloor>n\<rfloor> \<noteq> n))"
    by blast
  from all [THEN conjunct2, THEN conjunct2, THEN conjunct2, THEN mp, OF this]
  have frac: "\<exists>e. setScale (JNum (5 / 2)) c = (Inl e, c)" .
  from shape one two frac show ?thesis
    unfolding c_def by blast
qed

text \<open>
  C7 as stated fails: the canvas of one column of 42949673 cells, as the constructor makes
  it, is not scaled by the factor 100. The columns of the scaled map would hold 4294967300
  cells, more than an array can; setScale throws a RangeError and the canvas stays.
\<close>

theorem set_scale_too_large_counterexample:
  "newPixelCanvas (Some \<lparr>opt_width = JNum 1, opt_height = JNum 42949673,
        opt_backgroundColor = JNum 0, opt_pixelMap = None\<rparr>) =
     Inr \<lparr>width = 1, height = 42949673, pixelMap = [replicate 42949673 Null],
          lastUsedColor = 0, backgroundColor = 0\<rparr> \<and>
   hasShape \<lparr>width = 1, height = 42949673, pixelMap = [replicate 42949673 Null],
      lastUsedColor = 0, backgroundColor = 0\<rparr> 1 42949673 \<and>
   setScale (JNum 100) \<lparr>width = 1, height = 42949673, pixelMap = [replicate 42949673 Null],
      lastUsedColor = 0, backgroundColor = 0\<rparr> =
     (Inl RangeError, \<lparr>width = 1, height = 42949673, pixelMap = [replicate 42949673 Null],
      lastUsedColor = 0, backgroundColor = 0\<rparr>)"
proof -
  define col where "col = replicate 42949673 Null"
  define c where "c = \<lparr>width = 1, height = 42949673, pixelMap = [col],
      lastUsedColor = 0, backgroundColor = 0\<rparr>"
  have len: "length col = 42949673"
    unfolding col_def by (rule length_replicate)
  have "initPixelMap (of_nat 1) (of_nat 42949673) = Inr (replicate 1 (replicate 42949673 Null))"
    by (rule initPixelMap_nat) simp_all
  then have init: "initPixelMap 1 42949673 = Inr [col]"
    unfolding col_def by simp
  have made: "newPixelCanvas (Some \<lparr>opt_width = JNum 1, opt_height = JNum 42949673,
        opt_backgroundColor = JNum 0, opt_pixelMap = None\<rparr>) = Inr c"
    by (simp add: newPixelCanvas_def throwIfNegative_def init validateColor_simps c_def
        defaultCanvas_eq)
  have shape: "hasShape c 1 42949673"
    by (simp add: c_def hasShape_def len)
  have "setScale (JNum (of_nat 100)) c = (Inl RangeError, c)"
    by (rule setScale_too_large [OF shape]) simp_all
  then have "setScale (JNum 100) c = (Inl RangeError, c)"
    by simp
  with made shape show ?thesis
    unfolding c_def col_def by blast
qed

section \<open>Filling several cells\<close>

lemma forEachMut_append:
  "forEachMut (as @ bs) body s =
     (case forEachMut as body s of (Inl e, s') \<Rightarrow> (Inl e, s') | (Inr _, s') \<Rightarrow> forEachMut bs body s')"
  by (induction as arbitrary: s) (auto split: prod.splits sum.splits)

lemma forEachMut_pairs:
  "forEachMut (map (Pair x) ys) (\<lambda>(x, y). body x y) s = forEachMut ys (body x) s"
  by (induction ys arbitrary: s) (auto split: prod.splits sum.splits)

lemma forEachMut_nested:
  "forEachMut xs (\<lambda>x. forEachMut ys (body x)) s =
     forEachMut (List.product xs ys) (\<lambda>(x, y). body x y) s"
  by (induction xs arbitrary: s)
    (auto simp add: forEachMut_append forEachMut_pairs split: prod.splits sum.splits)

lemma forEachMut_writes:
  "forEach ts (\<lambda>t m. setCell m (gx t) (gy t) v) m0 = Inr m \<Longrightarrow>
   forEachMut ts (\<lambda>t. writeCell (gx t) (gy t) v) m0 = (Inr (), m)"
proof (induction ts arbitrary: m0)
  case Nil
  then show ?case by simp
next
  case (Cons t ts)
  then show ?case
    by (cases "setCell m0 (gx t) (gy t) v") (simp_all add: writeCell_def)
qed

lemma validation_loop:
  "forEach vs (\<lambda>v _. throwIfOutOfRange v lo hi) () =
     (if \<forall>v \<in> set vs. lo \<le> v \<and> v \<le> hi then Inr () else Inl RangeError)"
  by (induction vs) (auto simp add: throwIfOutOfRange_def)

lemma setPixels_integers:
  assumes shape: "hasShape c w h" and fits: "w < 2 ^ 32" "h < 2 ^ 32"
  shows "setPixels (map of_int xs) (map of_int ys) color c =
     (if (\<forall>x \<in> set xs. 0 \<le> x \<and> x < int w) \<and> (\<forall>y \<in> set ys. 0 \<le> y \<and> y < int h)
      then (case currentColorOf color c of
              Inl e \<Rightarrow> (Inl e, c)
            | Inr currentColor \<Rightarrow>
                (Inr (), c\<lparr>pixelMap := paintedMap w h (pixelMap c) xs ys (Num currentColor),
                           lastUsedColor := currentColor\<rparr>))
      else (Inl RangeError, c))"
proof -
  from shape have wd: "width c = of_nat w" and ht: "height c = of_nat h"
    and len: "length (pixelMap c) = w" and cols: "\<forall>x < w. length (pixelMap c ! x) = h"
    by (simp_all add: hasShape_def list_all_length)
  have bound: "((of_int x :: rat) \<le> of_nat n - 1) = (x < int n)" for x n
  proof -
    have "((of_int x :: rat) \<le> of_nat n - 1) = ((of_int x :: rat) \<le> of_int (int n - 1))"
      by simp
    also have "\<dots> = (x \<le> int n - 1)"
      by (simp only: of_int_le_iff)
    finally show ?thesis by auto
  qed
  have vx: "forEach (map of_int xs) (\<lambda>x _. throwIfOutOfRange x 0 (width c - 1)) () =
      (if \<forall>x \<in> set xs. 0 \<le> x \<and> x < int w then Inr () else Inl RangeError)"
    by (simp add: validation_loop wd bound)
  have vy: "forEach (map of_int ys) (\<lambda>y _. throwIfOutOfRange y 0 (height c - 1)) () =
      (if \<forall>y \<in> set ys. 0 \<le> y \<and> y < int h then Inr () else Inl RangeError)"
    by (simp add: validation_loop ht bound)
  show ?thesis
  proof (cases "(\<forall>x \<in> set xs. 0 \<le> x \<and> x < int w) \<and> (\<forall>y \<in> set ys. 0 \<le> y \<and> y < int h)")
    case False
    then show ?thesis
      by (auto simp add: setPixels_def vx vy)
  next
    case ok: True
    show ?thesis
    proof (cases "currentColorOf color c")
      case (Inl e)
      with ok show ?thesis
        by (simp add: setPixels_def vx vy)
    next
      case (Inr cur)
      define ts :: "(rat \<times> rat) list" where "ts = List.product (map of_int xs) (map of_int ys)"
      define fx where "fx = (\<lambda>t :: rat \<times> rat. nat \<lfloor>fst t\<rfloor>)"
      define fy where "fy = (\<lambda>t :: rat \<times> rat. nat \<lfloor>snd t\<rfloor>)"
      have "\<exists>m. forEach ts (\<lambda>t m. setCell m (fst t) (snd t) (Num cur)) (pixelMap c) = Inr m \<and>
          length m = w \<and> (\<forall>X < w. length (m ! X) = h) \<and>
          (\<forall>X < w. \<forall>Y < h. m ! X ! Y =
            (if (X, Y) \<in> (\<lambda>t. (fx t, fy t)) ` set ts then Num cur else pixelMap c ! X ! Y))"
      proof (rule forEach_writes [OF len cols fits, where V = "\<lambda>_ _. Num cur"])
        fix t :: "rat \<times> rat" and m
        assume "t \<in> set ts"
        then obtain x y where t: "t = (of_int x, of_int y)" and x: "x \<in> set xs" and y: "y \<in> set ys"
          by (auto simp add: ts_def)
        with ok have "0 \<le> x" "x < int w" "0 \<le> y" "y < int h"
          by auto
        then show "fx t < w \<and> fy t < h \<and>
            setCell m (fst t) (snd t) (Num cur) = setCell m (of_nat (fx t)) (of_nat (fy t)) (Num cur)"
          by (auto simp add: t fx_def fy_def)
      qed
      then obtain m where m1: "forEach ts (\<lambda>t m. setCell m (fst t) (snd t) (Num cur)) (pixelMap c) = Inr m"
        and m2: "length m = w" and m3: "\<forall>X < w. length (m ! X) = h"
        and m4: "\<forall>X < w. \<forall>Y < h. m ! X ! Y =
            (if (X, Y) \<in> (\<lambda>t. (fx t, fy t)) ` set ts then Num cur else pixelMap c ! X ! Y)"
        by (elim exE conjE)
      have member: "((X, Y) \<in> (\<lambda>t. (fx t, fy t)) ` set ts) = (int X \<in> set xs \<and> int Y \<in> set ys)"
        for X Y
      proof
        assume "(X, Y) \<in> (\<lambda>t. (fx t, fy t)) ` set ts"
        then obtain x y where "x \<in> set xs" "y \<in> set ys" "X = nat x" "Y = nat y"
          by (auto simp add: ts_def fx_def fy_def)
        with ok show "int X \<in> set xs \<and> int Y \<in> set ys"
          by auto
      next
        assume "int X \<in> set xs \<and> int Y \<in> set ys"
        then have "(of_int (int X) :: rat) \<in> of_int ` set xs"
          and "(of_int (int Y) :: rat) \<in> of_int ` set ys"
          by blast+
        then have "(of_int (int X), of_int (int Y)) \<in> set ts"
          by (simp add: ts_def del: of_int_of_nat_eq)
        then have "(\<lambda>t. (fx t, fy t)) (of_int (int X), of_int (int Y)) \<in> (\<lambda>t. (fx t, fy t)) ` set ts"
          by (rule imageI)
        then show "(X, Y) \<in> (\<lambda>t. (fx t, fy t)) ` set ts"
          by (simp add: fx_def fy_def)
      qed
      have painted: "m = paintedMap w h (pixelMap c) xs ys (Num cur)"
      proof (rule nth_equalityI)
        show "length m = length (paintedMap w h (pixelMap c) xs ys (Num cur))"
          by (simp add: m2 paintedMap_def)
        fix X
        assume "X < length m"
        then have X: "X < w" by (simp add: m2)
        show "m ! X = paintedMap w h (pixelMap c) xs ys (Num cur) ! X"
          using X m3 m4 by (intro nth_equalityI) (simp_all add: paintedMap_def member)
      qed
      have "forEachMut (map of_int xs) (\<lambda>x. forEachMut (map of_int ys) (\<lambda>y. writeCell x y (Num cur)))
          (pixelMap c) = (Inr (), m)"
        using forEachMut_writes [OF m1]
        by (simp add: forEachMut_nested ts_def case_prod_unfold)
      with ok Inr painted show ?thesis
        by (simp add: setPixels_def vx vy)
    qed
  qed
qed


text \<open>
  For integer coordinates setPixels is all or nothing, as \<open>setPixels_integers\<close> says:
  on a canvas of the shape its size declares, whose columns are arrays of their own (no
  two of them one and the same array) and of a length an array can have, either every
  coordinate is within the bounds
  and the colour resolves, and then exactly the cells of the product are painted and the
  cursor is set, or the call throws and returns the canvas as it was.

  C8 does not hold of the code for every list of coordinates. The two validation loops of
  setPixels compare each coordinate with the bounds and accept a fraction within them; the
  write loop then indexes the map with it. With the x coordinates 0 and 1/2 and the y
  coordinate 0 on a fresh 2 by 2 canvas both loops pass, the cell (0, 0) is written, and
  the write for x = 1/2 finds no column and throws a TypeError: the call fails and leaves
  the pixel map changed (the cursor is not updated). The sibling setScale rejects a
  fraction through throwIfNotInteger; setPixels has no such check.
\<close>

theorem setPixels_partial_write:
  "newPixelCanvas (Some \<lparr>opt_width = JNum 2, opt_height = JNum 2,
        opt_backgroundColor = JNum 0, opt_pixelMap = None\<rparr>) =
     Inr \<lparr>width = 2, height = 2, pixelMap = [[Null, Null], [Null, Null]],
          lastUsedColor = 0, backgroundColor = 0\<rparr> \<and>
   setPixels [0, 1 / 2] [0] (Some (JNum 0x123456))
     \<lparr>width = 2, height = 2, pixelMap = [[Null, Null], [Null, Null]],
      lastUsedColor = 0, backgroundColor = 0\<rparr> =
     (Inl TypeError,
      \<lparr>width = 2, height = 2, pixelMap = [[Num 0x123456, Null], [Null, Null]],
       lastUsedColor = 0, backgroundColor = 0\<rparr>)"
  by code_simp

section \<open>Greyscale samples\<close>

lemma bitLength_le: "n < 2 ^ k \<Longrightarrow> bitLength n \<le> k"
proof (induction k arbitrary: n)
  case 0
  then show ?case by (simp add: bitLength.simps)
next
  case (Suc k)
  show ?case
  proof (cases "n = 0")
    case True
    then show ?thesis by (simp add: bitLength.simps)
  next
    case False
    from Suc.prems have "n div 2 < 2 ^ k" by simp
    then have "bitLength (n div 2) \<le> k" by (rule Suc.IH)
    with False show ?thesis by (subst bitLength.simps) simp
  qed
qed

lemma ilog2_le_7: "0 < q \<Longrightarrow> q < 256 \<Longrightarrow> ilog2 q \<le> 7"
proof -
  assume "0 < q" and "q < 256"
  show ?thesis
  proof (cases "1 \<le> q")
    case True
    from \<open>q < 256\<close> have "\<lfloor>q\<rfloor> < 256" by (simp add: floor_less_iff)
    moreover from True have "0 \<le> \<lfloor>q\<rfloor>" by simp
    ultimately have "nat \<lfloor>q\<rfloor> < 256" by linarith
    then have "nat \<lfloor>q\<rfloor> < 2 ^ 8" by simp
    then have "bitLength (nat \<lfloor>q\<rfloor>) \<le> 8" by (rule bitLength_le)
    with True show ?thesis by (simp add: ilog2_def)
  next
    case False
    then show ?thesis by (simp add: ilog2_def)
  qed
qed

lemma pow2_pos: "0 < pow2 e"
  by (simp add: pow2_def)

lemma pow2_small: "e \<le> - 45 \<Longrightarrow> pow2 e \<le> 1 / 2 ^ 45"
proof -
  assume e: "e \<le> - 45"
  then have "45 \<le> nat (- e)" by simp
  then have "(2 :: rat) ^ 45 \<le> 2 ^ nat (- e)"
    by (rule power_increasing) simp
  then have "1 / (2 :: rat) ^ nat (- e) \<le> 1 / 2 ^ 45"
    by (simp add: frac_le)
  with e show ?thesis by (simp add: pow2_def)
qed

lemma roundHalfEven_near: "\<bar>of_int (roundHalfEven m) - m\<bar> \<le> 1 / 2"
proof -
  have "of_int \<lfloor>m\<rfloor> \<le> m" and "m < of_int \<lfloor>m\<rfloor> + 1"
    by linarith+
  then show ?thesis
    by (auto simp add: roundHalfEven_def Let_def)
qed

lemma fl_error: "0 \<le> q \<Longrightarrow> q < 256 \<Longrightarrow> \<bar>fl q - q\<bar> \<le> 1 / 2 ^ 46"
proof -
  assume "0 \<le> q" and "q < 256"
  show ?thesis
  proof (cases "q = 0")
    case True
    then show ?thesis by (simp add: fl_def)
  next
    case False
    with \<open>0 \<le> q\<close> have pos: "0 < q" by simp
    define P where "P = pow2 (ilog2 q - 52)"
    have P0: "0 < P" by (simp add: P_def pow2_pos)
    from ilog2_le_7 [OF pos \<open>q < 256\<close>] have "ilog2 q - 52 \<le> - 45" by simp
    then have P1: "P \<le> 1 / 2 ^ 45" unfolding P_def by (rule pow2_small)
    have "fl q - q = (of_int (roundHalfEven (q / P)) - q / P) * P"
      using pos P0 by (simp add: fl_def Let_def P_def [symmetric] algebra_simps)
    then have "\<bar>fl q - q\<bar> = \<bar>of_int (roundHalfEven (q / P)) - q / P\<bar> * P"
      using P0 by (simp add: abs_mult)
    also have "\<dots> \<le> 1 / 2 * P"
      using roundHalfEven_near [of "q / P"] P0 by (simp add: mult_right_mono)
    also have "\<dots> \<le> 1 / 2 * (1 / 2 ^ 45)"
      using P1 by simp
    finally show ?thesis by simp
  qed
qed


lemma roundHalfEven_nonneg: "0 \<le> m \<Longrightarrow> 0 \<le> roundHalfEven m"
proof -
  assume "0 \<le> m"
  then have "0 \<le> \<lfloor>m\<rfloor>" by simp
  then show ?thesis
    by (auto simp add: roundHalfEven_def Let_def)
qed

lemma fl_nonneg: "0 \<le> fl q"
proof (cases "q \<le> 0")
  case True
  then show ?thesis by (simp add: fl_def)
next
  case False
  then have "0 \<le> q / pow2 (ilog2 q - 52)"
    using pow2_pos [of "ilog2 q - 52"] by simp
  then have "0 \<le> roundHalfEven (q / pow2 (ilog2 q - 52))"
    by (rule roundHalfEven_nonneg)
  with False show ?thesis
    using pow2_pos [of "ilog2 q - 52"] by (simp add: fl_def Let_def)
qed

lemma fl_constants:
  "fl (299 / 1000) = 5386305154335113 / 18014398509481984"
  "fl (587 / 1000) = 2643612981266481 / 4503599627370496"
  "fl (114 / 1000) = 8214565720323785 / 72057594037927936"
  by code_simp+

lemma luminance_error:
  assumes "0 \<le> r" "r \<le> 255" "0 \<le> g" "g \<le> 255" "0 \<le> b" "b \<le> 255"
  shows "\<bar>fl (fl (fl (fl (299 / 1000) * of_int r) + fl (fl (587 / 1000) * of_int g))
              + fl (fl (114 / 1000) * of_int b))
          - (299 / 1000 * of_int r + 587 / 1000 * of_int g + 114 / 1000 * of_int b)\<bar>
         \<le> 1 / 2 ^ 40"
proof -
  define R G B :: rat where "R = of_int r" and "G = of_int g" and "B = of_int b"
  from assms have range: "0 \<le> R" "R \<le> 255" "0 \<le> G" "G \<le> 255" "0 \<le> B" "B \<le> 255"
    by (simp_all add: R_def G_def B_def)
  define p1 where "p1 = fl (5386305154335113 / 18014398509481984 * R)"
  define p2 where "p2 = fl (2643612981266481 / 4503599627370496 * G)"
  define p3 where "p3 = fl (8214565720323785 / 72057594037927936 * B)"
  define s1 where "s1 = fl (p1 + p2)"
  define s2 where "s2 = fl (s1 + p3)"
  define eps :: rat where "eps = 1 / 2 ^ 46"
  have eps: "eps * 70368744177664 = 1"
    by (simp add: eps_def)
  have e1: "\<bar>p1 - 5386305154335113 / 18014398509481984 * R\<bar> \<le> eps"
    unfolding p1_def eps_def using range by (intro fl_error) simp_all
  have e2: "\<bar>p2 - 2643612981266481 / 4503599627370496 * G\<bar> \<le> eps"
    unfolding p2_def eps_def using range by (intro fl_error) simp_all
  have e3: "\<bar>p3 - 8214565720323785 / 72057594037927936 * B\<bar> \<le> eps"
    unfolding p3_def eps_def using range by (intro fl_error) simp_all
  have n: "0 \<le> p1" "0 \<le> p2" "0 \<le> p3" "0 \<le> s1"
    by (simp_all add: p1_def p2_def p3_def s1_def fl_nonneg)
  have u4: "p1 + p2 < 256"
    using range e1 e2 eps by linarith
  have e4: "\<bar>s1 - (p1 + p2)\<bar> \<le> eps"
    unfolding s1_def eps_def using n u4 by (intro fl_error) simp_all
  have u5: "s1 + p3 < 256"
    using range e1 e2 e3 e4 eps by linarith
  have e5: "\<bar>s2 - (s1 + p3)\<bar> \<le> eps"
    unfolding s2_def eps_def using n u5 by (intro fl_error) simp_all
  have "\<bar>s2 - (299 / 1000 * R + 587 / 1000 * G + 114 / 1000 * B)\<bar> \<le> 64 * eps"
    using range e1 e2 e3 e4 e5 eps by linarith
  also have "64 * eps = 1 / 2 ^ 40"
    by (simp add: eps_def)
  finally show ?thesis
    by (simp only: fl_constants s2_def s1_def p1_def p2_def p3_def R_def G_def B_def)
qed


lemma luminance_near:
  assumes "0 \<le> r" "r \<le> 255" "0 \<le> g" "g \<le> 255" "0 \<le> b" "b \<le> 255"
  shows "luminanceExact r g b - 1 \<le> luminanceDouble r g b"
    and "luminanceDouble r g b \<le> luminanceExact r g b"
    and "(299 * r + 587 * g + 114 * b) mod 1000 \<noteq> 500 \<Longrightarrow>
         luminanceDouble r g b = luminanceExact r g b"
    and "0 \<le> luminanceDouble r g b" and "luminanceExact r g b \<le> 255"
proof -
  define s where "s = fl (fl (fl (fl (299 / 1000) * of_int r) + fl (fl (587 / 1000) * of_int g))
              + fl (fl (114 / 1000) * of_int b))"
  define Xr :: rat where
    "Xr = 299 / 1000 * of_int r + 587 / 1000 * of_int g + 114 / 1000 * of_int b"
  define delta :: rat where "delta = 1 / 2 ^ 40"
  define N where "N = 299 * r + 587 * g + 114 * b + 500"
  define k where "k = N div 1000"
  define m where "m = N mod 1000"
  define K :: rat where "K = of_int k"
  define F :: rat where "F = of_int m / 1000"
  have delta: "delta * 1099511627776 = 1"
    by (simp add: delta_def)
  have err: "\<bar>s - Xr\<bar> \<le> delta"
    unfolding s_def Xr_def delta_def by (rule luminance_error [OF assms])
  have N: "N = 1000 * k + m" and m: "0 \<le> m" "m < 1000"
    by (simp_all add: k_def m_def)
  have XN: "Xr + 1 / 2 = (of_int N :: rat) / of_int 1000"
    by (simp add: Xr_def N_def)
  also have "\<dots> = K + F"
    by (simp add: N K_def F_def)
  finally have X: "Xr + 1 / 2 = K + F" .
  from m have frac: "0 \<le> F" "F \<le> 999 / 1000"
    by (simp_all add: F_def)
  have exact: "luminanceExact r g b = k"
  proof -
    have "luminanceExact r g b = \<lfloor>Xr + 1 / 2\<rfloor>"
      unfolding luminanceExact_def mathRound_def Xr_def ..
    then show ?thesis
      by (simp only: XN floor_divide_of_int_eq k_def)
  qed
  have double: "luminanceDouble r g b = \<lfloor>s + 1 / 2\<rfloor>"
    by (simp add: luminanceDouble_def mathRound_def s_def)
  have "K - 1 \<le> s + 1 / 2"
    using err X frac delta by linarith
  then have lo: "of_int (k - 1) \<le> s + 1 / 2"
    by (simp add: K_def)
  have "s + 1 / 2 < K + 1"
    using err X frac delta by linarith
  then have hi: "s + 1 / 2 < of_int (k + 1)"
    by (simp add: K_def)
  from lo show "luminanceExact r g b - 1 \<le> luminanceDouble r g b"
    by (simp only: exact double le_floor_iff)
  from hi have below: "\<lfloor>s + 1 / 2\<rfloor> < k + 1"
    by (simp only: floor_less_iff)
  then show "luminanceDouble r g b \<le> luminanceExact r g b"
    by (simp add: exact double)
  show "luminanceDouble r g b = luminanceExact r g b"
    if "(299 * r + 587 * g + 114 * b) mod 1000 \<noteq> 500"
  proof -
    have "m \<noteq> 0"
    proof
      assume "m = 0"
      define T where "T = 299 * r + 587 * g + 114 * b"
      define u where "u = T mod 1000"
      have u: "0 \<le> u" "u < 1000"
        by (simp_all add: u_def)
      from \<open>m = 0\<close> have "(T + 500) mod 1000 = 0"
        by (simp add: m_def N_def T_def)
      then have "(u + 500) mod 1000 = 0"
        by (simp add: u_def mod_add_left_eq)
      then have "1000 dvd u + 500"
        by (simp only: dvd_eq_mod_eq_0)
      then obtain j where j: "u + 500 = 1000 * j" ..
      with u have "0 < j" "j < 2" by linarith+
      then have "j = 1" by simp
      with j have "u = 500" by simp
      with that show False
        by (simp add: u_def T_def)
    qed
    with m have "1 \<le> m" by simp
    then have "1 / 1000 \<le> F"
      by (simp add: F_def)
    with err X delta have "K \<le> s + 1 / 2"
      by linarith
    then have "of_int k \<le> s + 1 / 2"
      by (simp add: K_def)
    then have "k \<le> \<lfloor>s + 1 / 2\<rfloor>"
      by (simp only: le_floor_iff)
    with below show ?thesis
      by (simp add: exact double)
  qed
  have "0 \<le> s"
    by (simp add: s_def fl_nonneg)
  then show "0 \<le> luminanceDouble r g b"
    by (simp add: double)
  from assms have "N \<le> 255500"
    by (simp add: N_def)
  then have "N div 1000 \<le> 255500 div 1000"
    by (rule zdiv_mono1) simp
  then have "k \<le> 255"
    by (simp add: k_def)
  then show "luminanceExact r g b \<le> 255"
    by (simp add: exact)
qed


lemma toInt32_color: "0 \<le> c \<Longrightarrow> c \<le> 0xffffff \<Longrightarrow> toInt32 (Num c) = \<lfloor>c\<rfloor>"
proof -
  assume "0 \<le> c" and "c \<le> 0xffffff"
  then have "0 \<le> \<lfloor>c\<rfloor>" and "\<lfloor>c\<rfloor> \<le> 0xffffff"
    by (simp_all add: floor_le_iff)
  then show ?thesis
    using \<open>0 \<le> c\<close> by (simp add: toInt32_def Let_def)
qed

lemma low_byte: "x AND 0xff = x mod 256" for x :: int
proof -
  have "x AND 0xff = take_bit 8 x"
    by (simp add: take_bit_eq_mask mask_eq_exp_minus_1)
  then show ?thesis
    by (simp add: take_bit_eq_mod)
qed

lemma convertTrueColorToGrayscale_color:
  "0 \<le> c \<Longrightarrow> c \<le> 0xffffff \<Longrightarrow>
   convertTrueColorToGrayscale (Num c) = luminanceDouble (redOf c) (greenOf c) (blueOf c)"
  by (simp add: convertTrueColorToGrayscale_def toInt32_color low_byte drop_bit_eq_div
      luminanceDouble_def redOf_def greenOf_def blueOf_def)

lemma component_range:
  "0 \<le> redOf c" "redOf c \<le> 255" "0 \<le> greenOf c" "greenOf c \<le> 255"
  "0 \<le> blueOf c" "blueOf c \<le> 255"
proof -
  have "0 \<le> x mod 256 \<and> x mod 256 \<le> 255" for x :: int
    using pos_mod_bound [of 256 x] by simp
  then show "0 \<le> redOf c" "redOf c \<le> 255" "0 \<le> greenOf c" "greenOf c \<le> 255"
    "0 \<le> blueOf c" "blueOf c \<le> 255"
    by (simp_all add: redOf_def greenOf_def blueOf_def)
qed

lemma grey_123456:
  "createPixelBuffer (Num 0x123456) GRAYSCALE = Inr [0x2E]"
  "createPixelBuffer (Num 0x123456) GRAYSCALE_ALPHA = Inr [0x2E, 0xFF]"
  by code_simp+

text \<open>
  C6, as amended. For every colour value in [0, 0xFFFFFF], encoding in Greyscale mode yields
  the single byte Math.round(0.299 R + 0.587 G + 0.114 B), where R, G and B are the high,
  middle and low bytes of the value and the formula is evaluated in binary64 arithmetic,
  each product and each sum rounded to the nearest double in the order written. The byte
  lies in [0, 255]; it is the exactly computed weighted sum rounded to the nearest integer
  whenever that sum is not half-way between two integers (299 R + 587 G + 114 B is not 500
  modulo 1000), and that integer or the one below it otherwise. Encoding 0x123456 yields
  0x2E in Greyscale mode and [0x2E, 0xFF] in GreyscaleAlpha mode.
\<close>

theorem greyscale_luminance:
  "0 \<le> c \<and> c \<le> 0xffffff \<longrightarrow>
     createPixelBuffer (Num c) GRAYSCALE =
       Inr [word_of_int (luminanceDouble (redOf c) (greenOf c) (blueOf c))] \<and>
     0 \<le> luminanceDouble (redOf c) (greenOf c) (blueOf c) \<and>
     luminanceDouble (redOf c) (greenOf c) (blueOf c) \<le> 255 \<and>
     luminanceExact (redOf c) (greenOf c) (blueOf c) - 1
       \<le> luminanceDouble (redOf c) (greenOf c) (blueOf c) \<and>
     luminanceDouble (redOf c) (greenOf c) (blueOf c)
       \<le> luminanceExact (redOf c) (greenOf c) (blueOf c) \<and>
     ((299 * redOf c + 587 * greenOf c + 114 * blueOf c) mod 1000 \<noteq> 500 \<longrightarrow>
        luminanceDouble (redOf c) (greenOf c) (blueOf c) =
          luminanceExact (redOf c) (greenOf c) (blueOf c)) \<and>
     createPixelBuffer (Num 0x123456) GRAYSCALE = Inr [0x2E] \<and>
     createPixelBuffer (Num 0x123456) GRAYSCALE_ALPHA = Inr [0x2E, 0xFF]"
proof
  assume a: "0 \<le> c \<and> c \<le> 0xffffff"
  note near = luminance_near [OF component_range, of c c c]
  have enc: "createPixelBuffer (Num c) GRAYSCALE =
       Inr [word_of_int (luminanceDouble (redOf c) (greenOf c) (blueOf c))]"
    using a by (simp add: createPixelBuffer_def createGrayscalePixelBuffer_ok
        convertTrueColorToGrayscale_color)
  have top: "luminanceDouble (redOf c) (greenOf c) (blueOf c) \<le> 255"
    using near(2) near(5) by (rule order_trans)
  from enc near(4) top near(1) near(2) near(3) grey_123456
  show "createPixelBuffer (Num c) GRAYSCALE =
       Inr [word_of_int (luminanceDouble (redOf c) (greenOf c) (blueOf c))] \<and>
     0 \<le> luminanceDouble (redOf c) (greenOf c) (blueOf c) \<and>
     luminanceDouble (redOf c) (greenOf c) (blueOf c) \<le> 255 \<and>
     luminanceExact (redOf c) (greenOf c) (blueOf c) - 1
       \<le> luminanceDouble (redOf c) (greenOf c) (blueOf c) \<and>
     luminanceDouble (redOf c) (greenOf c) (blueOf c)
       \<le> luminanceExact (redOf c) (greenOf c) (blueOf c) \<and>
     ((299 * redOf c + 587 * greenOf c + 114 * blueOf c) mod 1000 \<noteq> 500 \<longrightarrow>
        luminanceDouble (redOf c) (greenOf c) (blueOf c) =
          luminanceExact (redOf c) (greenOf c) (blueOf c)) \<and>
     createPixelBuffer (Num 0x123456) GRAYSCALE = Inr [0x2E] \<and>
     createPixelBuffer (Num 0x123456) GRAYSCALE_ALPHA = Inr [0x2E, 0xFF]"
    by blast
qed

lemma components_123456:
  "redOf 0x123456 = 0x12" "greenOf 0x123456 = 0x34" "blueOf 0x123456 = 0x56"
  by code_simp+

lemma exact_123456: "luminanceExact 0x12 0x34 0x56 = 0x2E"
  by code_simp

theorem greyscale_luminance_witness:
  "(0 :: rat) \<le> 0x123456 \<and> (0x123456 :: rat) \<le> 0xffffff \<and>
   (299 * redOf 0x123456 + 587 * greenOf 0x123456 + 114 * blueOf 0x123456) mod 1000 \<noteq> 500 \<and>
   createPixelBuffer (Num 0x123456) GRAYSCALE =
     Inr [word_of_int (luminanceDouble (redOf 0x123456) (greenOf 0x123456) (blueOf 0x123456))] \<and>
   luminanceDouble (redOf 0x123456) (greenOf 0x123456) (blueOf 0x123456) = 0x2E"
proof -
  have a: "(0 :: rat) \<le> 0x123456 \<and> (0x123456 :: rat) \<le> 0xffffff"
    by simp
  have b: "(299 * redOf 0x123456 + 587 * greenOf 0x123456 + 114 * blueOf 0x123456) mod 1000 \<noteq> 500"
    by (simp add: components_123456)
  note all = greyscale_luminance [of "0x123456", THEN mp, OF a]
  from all have enc: "createPixelBuffer (Num 0x123456) GRAYSCALE =
     Inr [word_of_int (luminanceDouble (redOf 0x123456) (greenOf 0x123456) (blueOf 0x123456))]"
    by (rule conjunct1)
  from all b have "luminanceDouble (redOf 0x123456) (greenOf 0x123456) (blueOf 0x123456) =
      luminanceExact (redOf 0x123456) (greenOf 0x123456) (blueOf 0x123456)"
    by blast
  then have "luminanceDouble (redOf 0x123456) (greenOf 0x123456) (blueOf 0x123456) = 0x2E"
    by (simp add: components_123456 exact_123456)
  with a b enc show ?thesis by blast
qed

text \<open>
  C6 as stated, with the weighted sum taken exactly, fails where the sum is half-way: for
  the colour 0x00240C (R = 0, G = 36, B = 12) the exact sum is 22.5 and rounds to 23, while
  the doubles add up to just below 22.5 and the code yields 22.
\<close>

theorem greyscale_tie_counterexample:
  "createPixelBuffer (Num 0x00240C) GRAYSCALE = Inr [22] \<and>
   luminanceExact (redOf 0x00240C) (greenOf 0x00240C) (blueOf 0x00240C) = 23 \<and>
   createPixelBuffer (Num 0x00240C) GRAYSCALE \<noteq>
     Inr [word_of_int (luminanceExact (redOf 0x00240C) (greenOf 0x00240C) (blueOf 0x00240C))]"
  by code_simp

end
